theory Spec2Isabelle
  imports Main "HOL-Library.Word"
begin

unbundle bit_operations_syntax

section \<open>Data model\<close>

text \<open>
  Go strings are byte sequences: \<open>string\<close> (a list of 8-bit characters), so that
  \<open>length\<close> is Go's \<open>len\<close>. A \<open>[]byte\<close> is a list of 8-bit words, so that the
  cipher modes can XOR. An \<open>int\<close> behind a pointer is a 64-bit word read as signed.
\<close>

type_synonym byte = "8 word"
type_synonym bytes = "byte list"

definition bytes_of_string :: "string \<Rightarrow> bytes" where
  "bytes_of_string s = map of_char s"

text \<open>\<open>type EncMode string\<close>, \<open>type EncOpt struct\<close>.\<close>

type_synonym EncMode = string

definition EncModeCBC :: EncMode where "EncModeCBC = ''CBC''"
definition EncModeECB :: EncMode where "EncModeECB = ''ECB''"
definition EncModeGCM :: EncMode where "EncModeGCM = ''GCM''"

record EncOpt =
  Mode :: EncMode
  Key :: string
  Iv :: string

text \<open>
  \<open>type Options struct\<close>. The record is parametric in how \<open>DeviceKeys\<close> and \<open>Enc\<close> are
  held. In \<open>Options\<close> they are values: the elements of the slice (a nil and an empty slice
  are both \<open>[]\<close>) and the \<open>EncOpt\<close> behind the pointer (\<open>None\<close> for nil). The memory model
  further down holds them as a slice header and an address.
\<close>

record ('ks, 'e) Options_struct =
  DeviceKey :: string
  DeviceKeys :: 'ks
  Title :: string
  Body :: string
  Markdown :: string
  Subtitle :: string
  Group :: string
  URL :: string
  Icon :: string
  Sound :: string
  Badge :: "64 word option"
  Level :: string
  Copy :: string
  AutoCopy :: string
  IsArchive :: "64 word option"
  Call :: string
  Volume :: "64 word option"
  Action :: string
  ID :: string
  Delete :: string
  Enc :: 'e

type_synonym Options = "(string list, EncOpt option) Options_struct"

text \<open>
  Every error value the code builds, one constructor per message:
  \<^item> \<open>ErrDeviceKeyRequired\<close>: "device_key is required"
  \<^item> \<open>ErrContentRequired\<close>: "notification content is required"
  \<^item> \<open>ErrKeyLength\<close>: "encryption key length must be 16 (AES-128), 24 (AES-192), or 32 (AES-256) bytes"
  \<^item> \<open>ErrCBCRequiresIV\<close>: "CBC mode requires IV"
  \<^item> \<open>ErrGCMRequiresNonce\<close>: "GCM mode requires Nonce (Iv field)"
  \<^item> \<open>ErrUnsupportedModeOf m\<close>: "unsupported encryption mode: m (supported: CBC, ECB, GCM)"
  \<^item> \<open>KeySizeError n\<close>: the error of \<open>aes.NewCipher\<close> for a key of n bytes
  \<^item> \<open>ErrCBCIVLength n\<close>: "CBC IV length must be n"
  \<^item> \<open>ErrGCMNonceLength\<close>: "GCM Nonce length must be 12 bytes"
  \<^item> \<open>ErrUnsupportedMode\<close>: "unsupported encryption mode"
  \<^item> \<open>ErrMissingRoutingKey\<close>: "missing device key for routing"
  \<^item> \<open>Panic msg\<close>: a run-time panic of the Go runtime or of the standard library.
\<close>

datatype error =
    ErrDeviceKeyRequired
  | ErrContentRequired
  | ErrKeyLength
  | ErrCBCRequiresIV
  | ErrGCMRequiresNonce
  | ErrUnsupportedModeOf string
  | KeySizeError nat
  | ErrCBCIVLength nat
  | ErrGCMNonceLength
  | ErrUnsupportedMode
  | ErrMissingRoutingKey
  | Panic string

section \<open>Option validation\<close>

text \<open>
  \<open>strings.ToUpper\<close>, on the bytes \<open>a\<close> to \<open>z\<close>: each loses 32, that is its bit 5.
  The code only compares the result with \<open>CBC\<close>, \<open>ECB\<close> and \<open>GCM\<close>, and no character
  outside ASCII has one of the letters B, C, E, G, M as its upper case, so every other
  byte is left as it is.
\<close>

definition upper_char :: "char \<Rightarrow> char" where
  "upper_char c =
     (if (97::nat) \<le> of_char c \<and> of_char c \<le> (122::nat)
      then (case c of Char b0 b1 b2 b3 b4 b5 b6 b7 \<Rightarrow> Char b0 b1 b2 b3 b4 False b6 b7)
      else c)"

definition ToUpper :: "string \<Rightarrow> string" where
  "ToUpper s = map upper_char s"

text \<open>\<open>func (o *Options) Validate() error\<close>; \<open>None\<close> is the nil error.\<close>

definition Validate :: "Options \<Rightarrow> error option" where
  "Validate opts =
     (if length (DeviceKey opts) = 0 \<and> length (DeviceKeys opts) = 0 then Some ErrDeviceKeyRequired
      else if Title opts = [] \<and> Body opts = [] \<and> Markdown opts = [] then Some ErrContentRequired
      else case Enc opts of
        None \<Rightarrow> None
      | Some enc \<Rightarrow>
          (let keyLen = length (Key enc) in
           if keyLen \<noteq> 16 \<and> keyLen \<noteq> 24 \<and> keyLen \<noteq> 32 then Some ErrKeyLength
           else
             (let mode = ToUpper (Mode enc) in
              if mode = EncModeCBC then
                (if length (Iv enc) = 0 then Some ErrCBCRequiresIV else None)
              else if mode = EncModeGCM then
                (if length (Iv enc) = 0 then Some ErrGCMRequiresNonce else None)
              else if mode = EncModeECB then None
              else Some (ErrUnsupportedModeOf (Mode enc)))))"

section \<open>PKCS7 padding\<close>

text \<open>
  \<open>func pKCS7Padding(ciphertext []byte, blockSize int) []byte\<close>. The remainder panics
  for a zero block size and \<open>bytes.Repeat\<close> panics for a negative count; \<open>byte(padding)\<close>
  keeps the low eight bits.
\<close>

definition pKCS7Padding :: "bytes \<Rightarrow> int \<Rightarrow> error + bytes" where
  "pKCS7Padding ciphertext blockSize =
     (if blockSize = 0 then Inl (Panic ''integer divide by zero'')
      else
        (let padding = blockSize - int (length ciphertext) mod \<bar>blockSize\<bar> in
         if padding < 0 then Inl (Panic ''bytes: negative Repeat count'')
         else Inr (ciphertext @ replicate (nat padding) (word_of_int padding))))"

section \<open>JSON values and their encoding\<close>

text \<open>
  What \<open>json.Marshal\<close> writes is a tree of values. An object keeps its members as an
  association list, in the order in which they are written.
\<close>

datatype json =
    JString string
  | JNumber int
  | JArray "json list"
  | JObject "(string \<times> json) list"

text \<open>Decimal digits of an integer, as \<open>strconv\<close> prints them.\<close>

function decimal_nat :: "nat \<Rightarrow> string" where
  "decimal_nat n =
     (if n < 10 then [''0123456789'' ! n]
      else decimal_nat (n div 10) @ [''0123456789'' ! (n mod 10)])"
  by pat_completeness auto
termination
  by (relation "measure (\<lambda>n. n)") auto

definition decimal :: "int \<Rightarrow> string" where
  "decimal i = (if i < 0 then CHR ''-'' # decimal_nat (nat (- i)) else decimal_nat (nat i))"

fun commas :: "string list \<Rightarrow> string" where
  "commas [] = []"
| "commas [x] = x"
| "commas (x # y # ys) = x @ CHR '','' # commas (y # ys)"

text \<open>
  The encoder of \<open>encoding/json\<close>. How it writes a string literal (the quotes and the
  escapes for control characters, HTML characters and invalid UTF-8) is the parameter
  \<open>quote\<close>; the rest is fixed: members and elements in order, separated by commas,
  no white space.
\<close>

fun render :: "(string \<Rightarrow> string) \<Rightarrow> json \<Rightarrow> string" where
  "render quote (JString s) = quote s"
| "render quote (JNumber i) = decimal i"
| "render quote (JArray vs) = CHR ''['' # commas (map (render quote) vs) @ '']''"
| "render quote (JObject kvs) =
     CHR ''{'' # commas (map (\<lambda>kv. quote (fst kv) @ CHR '':'' # render quote (snd kv)) kvs) @ ''}''"

text \<open>
  The members \<open>json.Marshal\<close> writes for an \<open>Options\<close> value, from the struct tags, in
  the order of the fields. Every tag has \<open>omitempty\<close>: an empty string, an empty slice
  and a nil pointer are left out. \<open>Enc\<close> has the tag \<open>json:"-"\<close> and is never written.
\<close>

definition string_member :: "string \<Rightarrow> string \<Rightarrow> (string \<times> json) list" where
  "string_member name v = (if v = [] then [] else [(name, JString v)])"

definition strings_member :: "string \<Rightarrow> string list \<Rightarrow> (string \<times> json) list" where
  "strings_member name vs = (if vs = [] then [] else [(name, JArray (map JString vs))])"

definition int_member :: "string \<Rightarrow> 64 word option \<Rightarrow> (string \<times> json) list" where
  "int_member name p = (case p of None \<Rightarrow> [] | Some v \<Rightarrow> [(name, JNumber (sint v))])"

definition Options_members :: "Options \<Rightarrow> (string \<times> json) list" where
  "Options_members opts =
     string_member ''device_key'' (DeviceKey opts) @
     strings_member ''device_keys'' (DeviceKeys opts) @
     string_member ''title'' (Title opts) @
     string_member ''body'' (Body opts) @
     string_member ''markdown'' (Markdown opts) @
     string_member ''subtitle'' (Subtitle opts) @
     string_member ''group'' (Group opts) @
     string_member ''url'' (URL opts) @
     string_member ''icon'' (Icon opts) @
     string_member ''sound'' (Sound opts) @
     int_member ''badge'' (Badge opts) @
     string_member ''level'' (Level opts) @
     string_member ''copy'' (Copy opts) @
     string_member ''autoCopy'' (AutoCopy opts) @
     int_member ''isArchive'' (IsArchive opts) @
     string_member ''call'' (Call opts) @
     int_member ''volume'' (Volume opts) @
     string_member ''action'' (Action opts) @
     string_member ''id'' (ID opts) @
     string_member ''delete'' (Delete opts)"

text \<open>\<open>json.Marshal(o)\<close> for an \<open>Options\<close> value. It has no error case: every field is
  a string, a slice of strings or a pointer to an integer.\<close>

definition Marshal_Options :: "(string \<Rightarrow> string) \<Rightarrow> Options \<Rightarrow> bytes" where
  "Marshal_Options quote opts = bytes_of_string (render quote (JObject (Options_members opts)))"

text \<open>
  \<open>json.Marshal\<close> of a \<open>map[string]interface{}\<close>: the keys are written in increasing
  byte order. The map is an association list with one entry per key.
\<close>

fun string_less :: "string \<Rightarrow> string \<Rightarrow> bool" where
  "string_less [] [] = False"
| "string_less [] (y # ys) = True"
| "string_less (x # xs) [] = False"
| "string_less (x # xs) (y # ys) =
     ((of_char x :: nat) < of_char y \<or> (x = y \<and> string_less xs ys))"

fun insert_member :: "string \<times> json \<Rightarrow> (string \<times> json) list \<Rightarrow> (string \<times> json) list" where
  "insert_member kv [] = [kv]"
| "insert_member kv (m # ms) =
     (if string_less (fst m) (fst kv) then m # insert_member kv ms else kv # m # ms)"

definition sort_members :: "(string \<times> json) list \<Rightarrow> (string \<times> json) list" where
  "sort_members ms = foldr insert_member ms []"

definition Marshal_map :: "(string \<Rightarrow> string) \<Rightarrow> (string \<times> json) list \<Rightarrow> bytes" where
  "Marshal_map quote m = bytes_of_string (render quote (JObject (sort_members m)))"

text \<open>Assignment \<open>m[k] = v\<close> to a map.\<close>

definition map_set :: "(string \<times> json) list \<Rightarrow> string \<Rightarrow> json \<Rightarrow> (string \<times> json) list" where
  "map_set m k v = filter (\<lambda>kv. fst kv \<noteq> k) m @ [(k, v)]"

section \<open>Base64\<close>

text \<open>\<open>base64.StdEncoding\<close>: the standard alphabet, padding with \<open>=\<close>.\<close>

definition encodeStd :: string where
  "encodeStd = ''ABCDEFGHIJKLMNOPQRSTUVWXYZabcdefghijklmnopqrstuvwxyz0123456789+/''"

definition enc64 :: "nat \<Rightarrow> char" where
  "enc64 n = encodeStd ! n"

fun EncodeToString :: "bytes \<Rightarrow> string" where
  "EncodeToString (a # b # c # rest) =
     [enc64 (unat a div 4),
      enc64 (unat a mod 4 * 16 + unat b div 16),
      enc64 (unat b mod 16 * 4 + unat c div 64),
      enc64 (unat c mod 64)] @ EncodeToString rest"
| "EncodeToString [a, b] =
     [enc64 (unat a div 4),
      enc64 (unat a mod 4 * 16 + unat b div 16),
      enc64 (unat b mod 16 * 4),
      CHR ''='']"
| "EncodeToString [a] =
     [enc64 (unat a div 4), enc64 (unat a mod 4 * 16), CHR ''='', CHR ''='']"
| "EncodeToString [] = []"

text \<open>The decoder the receiver applies: standard base64 with padding.\<close>

definition dec64 :: "char \<Rightarrow> nat option" where
  "dec64 c = map_of (zip encodeStd [0..<64]) c"

fun DecodeString :: "string \<Rightarrow> bytes option" where
  "DecodeString [] = Some []"
| "DecodeString (c1 # c2 # c3 # c4 # rest) =
     (case (dec64 c1, dec64 c2) of
        (Some x1, Some x2) \<Rightarrow>
          (if rest = [] \<and> c3 = CHR ''='' \<and> c4 = CHR ''='' then
             Some [of_nat (x1 * 4 + x2 div 16)]
           else
             (case dec64 c3 of
                Some x3 \<Rightarrow>
                  (if rest = [] \<and> c4 = CHR ''='' then
                     Some [of_nat (x1 * 4 + x2 div 16), of_nat (x2 mod 16 * 16 + x3 div 4)]
                   else
                     (case (dec64 c4, DecodeString rest) of
                        (Some x4, Some bs) \<Rightarrow>
                          Some (of_nat (x1 * 4 + x2 div 16) #
                                of_nat (x2 mod 16 * 16 + x3 div 4) #
                                of_nat (x3 mod 4 * 64 + x4) # bs)
                      | _ \<Rightarrow> None))
              | None \<Rightarrow> None))
      | _ \<Rightarrow> None)"
| "DecodeString _ = None"

section \<open>The AES block cipher and its modes\<close>

text \<open>A block of the cipher is sixteen bytes.\<close>

typedef block = "{bs :: byte list. length bs = 16}"
  by (rule exI [of _ "replicate 16 0"]) simp

definition xor_bytes :: "bytes \<Rightarrow> bytes \<Rightarrow> bytes" where
  "xor_bytes xs ys = map2 (XOR) xs ys"

subsection \<open>The block function\<close>

text \<open>
  The block function behind \<open>crypto/aes\<close> is the cipher of FIPS 197, for keys of 16, 24
  and 32 bytes. The state is the sixteen input bytes in order, that is column by column.
\<close>

definition sbox :: "byte list" where
  "sbox = [
      0x63, 0x7c, 0x77, 0x7b, 0xf2, 0x6b, 0x6f, 0xc5, 0x30, 0x01, 0x67, 0x2b, 0xfe, 0xd7, 0xab, 0x76,
      0xca, 0x82, 0xc9, 0x7d, 0xfa, 0x59, 0x47, 0xf0, 0xad, 0xd4, 0xa2, 0xaf, 0x9c, 0xa4, 0x72, 0xc0,
      0xb7, 0xfd, 0x93, 0x26, 0x36, 0x3f, 0xf7, 0xcc, 0x34, 0xa5, 0xe5, 0xf1, 0x71, 0xd8, 0x31, 0x15,
      0x04, 0xc7, 0x23, 0xc3, 0x18, 0x96, 0x05, 0x9a, 0x07, 0x12, 0x80, 0xe2, 0xeb, 0x27, 0xb2, 0x75,
      0x09, 0x83, 0x2c, 0x1a, 0x1b, 0x6e, 0x5a, 0xa0, 0x52, 0x3b, 0xd6, 0xb3, 0x29, 0xe3, 0x2f, 0x84,
      0x53, 0xd1, 0x00, 0xed, 0x20, 0xfc, 0xb1, 0x5b, 0x6a, 0xcb, 0xbe, 0x39, 0x4a, 0x4c, 0x58, 0xcf,
      0xd0, 0xef, 0xaa, 0xfb, 0x43, 0x4d, 0x33, 0x85, 0x45, 0xf9, 0x02, 0x7f, 0x50, 0x3c, 0x9f, 0xa8,
      0x51, 0xa3, 0x40, 0x8f, 0x92, 0x9d, 0x38, 0xf5, 0xbc, 0xb6, 0xda, 0x21, 0x10, 0xff, 0xf3, 0xd2,
      0xcd, 0x0c, 0x13, 0xec, 0x5f, 0x97, 0x44, 0x17, 0xc4, 0xa7, 0x7e, 0x3d, 0x64, 0x5d, 0x19, 0x73,
      0x60, 0x81, 0x4f, 0xdc, 0x22, 0x2a, 0x90, 0x88, 0x46, 0xee, 0xb8, 0x14, 0xde, 0x5e, 0x0b, 0xdb,
      0xe0, 0x32, 0x3a, 0x0a, 0x49, 0x06, 0x24, 0x5c, 0xc2, 0xd3, 0xac, 0x62, 0x91, 0x95, 0xe4, 0x79,
      0xe7, 0xc8, 0x37, 0x6d, 0x8d, 0xd5, 0x4e, 0xa9, 0x6c, 0x56, 0xf4, 0xea, 0x65, 0x7a, 0xae, 0x08,
      0xba, 0x78, 0x25, 0x2e, 0x1c, 0xa6, 0xb4, 0xc6, 0xe8, 0xdd, 0x74, 0x1f, 0x4b, 0xbd, 0x8b, 0x8a,
      0x70, 0x3e, 0xb5, 0x66, 0x48, 0x03, 0xf6, 0x0e, 0x61, 0x35, 0x57, 0xb9, 0x86, 0xc1, 0x1d, 0x9e,
      0xe1, 0xf8, 0x98, 0x11, 0x69, 0xd9, 0x8e, 0x94, 0x9b, 0x1e, 0x87, 0xe9, 0xce, 0x55, 0x28, 0xdf,
      0x8c, 0xa1, 0x89, 0x0d, 0xbf, 0xe6, 0x42, 0x68, 0x41, 0x99, 0x2d, 0x0f, 0xb0, 0x54, 0xbb, 0x16]"

definition inv_sbox :: "byte list" where
  "inv_sbox = [
      0x52, 0x09, 0x6a, 0xd5, 0x30, 0x36, 0xa5, 0x38, 0xbf, 0x40, 0xa3, 0x9e, 0x81, 0xf3, 0xd7, 0xfb,
      0x7c, 0xe3, 0x39, 0x82, 0x9b, 0x2f, 0xff, 0x87, 0x34, 0x8e, 0x43, 0x44, 0xc4, 0xde, 0xe9, 0xcb,
      0x54, 0x7b, 0x94, 0x32, 0xa6, 0xc2, 0x23, 0x3d, 0xee, 0x4c, 0x95, 0x0b, 0x42, 0xfa, 0xc3, 0x4e,
      0x08, 0x2e, 0xa1, 0x66, 0x28, 0xd9, 0x24, 0xb2, 0x76, 0x5b, 0xa2, 0x49, 0x6d, 0x8b, 0xd1, 0x25,
      0x72, 0xf8, 0xf6, 0x64, 0x86, 0x68, 0x98, 0x16, 0xd4, 0xa4, 0x5c, 0xcc, 0x5d, 0x65, 0xb6, 0x92,
      0x6c, 0x70, 0x48, 0x50, 0xfd, 0xed, 0xb9, 0xda, 0x5e, 0x15, 0x46, 0x57, 0xa7, 0x8d, 0x9d, 0x84,
      0x90, 0xd8, 0xab, 0x00, 0x8c, 0xbc, 0xd3, 0x0a, 0xf7, 0xe4, 0x58, 0x05, 0xb8, 0xb3, 0x45, 0x06,
      0xd0, 0x2c, 0x1e, 0x8f, 0xca, 0x3f, 0x0f, 0x02, 0xc1, 0xaf, 0xbd, 0x03, 0x01, 0x13, 0x8a, 0x6b,
      0x3a, 0x91, 0x11, 0x41, 0x4f, 0x67, 0xdc, 0xea, 0x97, 0xf2, 0xcf, 0xce, 0xf0, 0xb4, 0xe6, 0x73,
      0x96, 0xac, 0x74, 0x22, 0xe7, 0xad, 0x35, 0x85, 0xe2, 0xf9, 0x37, 0xe8, 0x1c, 0x75, 0xdf, 0x6e,
      0x47, 0xf1, 0x1a, 0x71, 0x1d, 0x29, 0xc5, 0x89, 0x6f, 0xb7, 0x62, 0x0e, 0xaa, 0x18, 0xbe, 0x1b,
      0xfc, 0x56, 0x3e, 0x4b, 0xc6, 0xd2, 0x79, 0x20, 0x9a, 0xdb, 0xc0, 0xfe, 0x78, 0xcd, 0x5a, 0xf4,
      0x1f, 0xdd, 0xa8, 0x33, 0x88, 0x07, 0xc7, 0x31, 0xb1, 0x12, 0x10, 0x59, 0x27, 0x80, 0xec, 0x5f,
      0x60, 0x51, 0x7f, 0xa9, 0x19, 0xb5, 0x4a, 0x0d, 0x2d, 0xe5, 0x7a, 0x9f, 0x93, 0xc9, 0x9c, 0xef,
      0xa0, 0xe0, 0x3b, 0x4d, 0xae, 0x2a, 0xf5, 0xb0, 0xc8, 0xeb, 0xbb, 0x3c, 0x83, 0x53, 0x99, 0x61,
      0x17, 0x2b, 0x04, 0x7e, 0xba, 0x77, 0xd6, 0x26, 0xe1, 0x69, 0x14, 0x63, 0x55, 0x21, 0x0c, 0x7d]"

definition SubByte :: "byte \<Rightarrow> byte" where
  "SubByte b = sbox ! unat b"

definition InvSubByte :: "byte \<Rightarrow> byte" where
  "InvSubByte b = inv_sbox ! unat b"

definition SubBytes :: "bytes \<Rightarrow> bytes" where
  "SubBytes st = map SubByte st"

definition InvSubBytes :: "bytes \<Rightarrow> bytes" where
  "InvSubBytes st = map InvSubByte st"

text \<open>Row \<open>r\<close> of the state moves \<open>r\<close> columns to the left.\<close>

definition ShiftRows :: "bytes \<Rightarrow> bytes" where
  "ShiftRows st = map (\<lambda>i. st ! i) [0, 5, 10, 15, 4, 9, 14, 3, 8, 13, 2, 7, 12, 1, 6, 11]"

definition InvShiftRows :: "bytes \<Rightarrow> bytes" where
  "InvShiftRows st = map (\<lambda>i. st ! i) [0, 13, 10, 7, 4, 1, 14, 11, 8, 5, 2, 15, 12, 9, 6, 3]"

text \<open>Multiplication by \<open>x\<close> in GF(2^8) modulo \<open>x^8 + x^4 + x^3 + x + 1\<close>.\<close>

definition xtime :: "byte \<Rightarrow> byte" where
  "xtime b = (if bit b 7 then push_bit 1 b XOR 27 else push_bit 1 b)"

fun MixColumns :: "bytes \<Rightarrow> bytes" where
  "MixColumns (a # b # c # d # rest) =
     [xtime a XOR (xtime b XOR b) XOR c XOR d,
      a XOR xtime b XOR (xtime c XOR c) XOR d,
      a XOR b XOR xtime c XOR (xtime d XOR d),
      (xtime a XOR a) XOR b XOR c XOR xtime d] @ MixColumns rest"
| "MixColumns _ = []"

definition mul9 :: "byte \<Rightarrow> byte" where
  "mul9 b = xtime (xtime (xtime b)) XOR b"

definition mul11 :: "byte \<Rightarrow> byte" where
  "mul11 b = xtime (xtime (xtime b)) XOR xtime b XOR b"

definition mul13 :: "byte \<Rightarrow> byte" where
  "mul13 b = xtime (xtime (xtime b)) XOR xtime (xtime b) XOR b"

definition mul14 :: "byte \<Rightarrow> byte" where
  "mul14 b = xtime (xtime (xtime b)) XOR xtime (xtime b) XOR xtime b"

fun InvMixColumns :: "bytes \<Rightarrow> bytes" where
  "InvMixColumns (a # b # c # d # rest) =
     [mul14 a XOR mul11 b XOR mul13 c XOR mul9 d,
      mul9 a XOR mul14 b XOR mul11 c XOR mul13 d,
      mul13 a XOR mul9 b XOR mul14 c XOR mul11 d,
      mul11 a XOR mul13 b XOR mul9 c XOR mul14 d] @ InvMixColumns rest"
| "InvMixColumns _ = []"

definition AddRoundKey :: "bytes \<Rightarrow> bytes \<Rightarrow> bytes" where
  "AddRoundKey st rk = xor_bytes st rk"

text \<open>The key schedule, on words of four bytes.\<close>

definition RotWord :: "bytes \<Rightarrow> bytes" where
  "RotWord w = rotate1 w"

definition SubWord :: "bytes \<Rightarrow> bytes" where
  "SubWord w = map SubByte w"

definition Rcon :: "nat \<Rightarrow> bytes" where
  "Rcon j = [(xtime ^^ (j - 1)) 1, 0, 0, 0]"

primrec expand_key :: "nat \<Rightarrow> nat \<Rightarrow> bytes list \<Rightarrow> bytes list" where
  "expand_key 0 Nk w = w"
| "expand_key (Suc n) Nk w =
     (let i = length w;
          temp = w ! (i - 1);
          temp = (if i mod Nk = 0 then xor_bytes (SubWord (RotWord temp)) (Rcon (i div Nk))
                  else if 6 < Nk \<and> i mod Nk = 4 then SubWord temp
                  else temp)
      in expand_key n Nk (w @ [xor_bytes (w ! (i - Nk)) temp]))"

definition KeyExpansion :: "bytes \<Rightarrow> bytes list" where
  "KeyExpansion key =
     (let Nk = length key div 4;
          Nr = Nk + 6
      in expand_key (4 * (Nr + 1) - Nk) Nk (map (\<lambda>i. take 4 (drop (4 * i) key)) [0..<Nk]))"

definition round_keys :: "bytes \<Rightarrow> bytes list" where
  "round_keys key =
     (let w = concat (KeyExpansion key)
      in map (\<lambda>r. take 16 (drop (16 * r) w)) [0..<length key div 4 + 7])"

text \<open>The rounds after the first key addition; the last one has no \<open>MixColumns\<close>.\<close>

fun rounds :: "bytes list \<Rightarrow> bytes \<Rightarrow> bytes" where
  "rounds [] st = st"
| "rounds [rk] st = AddRoundKey (ShiftRows (SubBytes st)) rk"
| "rounds (rk # rks) st = rounds rks (AddRoundKey (MixColumns (ShiftRows (SubBytes st))) rk)"

fun inv_rounds :: "bytes list \<Rightarrow> bytes \<Rightarrow> bytes" where
  "inv_rounds [] st = st"
| "inv_rounds [rk] st = InvSubBytes (InvShiftRows (AddRoundKey st rk))"
| "inv_rounds (rk # rks) st =
     InvSubBytes (InvShiftRows (InvMixColumns (AddRoundKey (inv_rounds rks st) rk)))"

definition Cipher :: "bytes list \<Rightarrow> bytes \<Rightarrow> bytes" where
  "Cipher rks st = rounds (tl rks) (AddRoundKey st (hd rks))"

definition InvCipher :: "bytes list \<Rightarrow> bytes \<Rightarrow> bytes" where
  "InvCipher rks st = AddRoundKey (inv_rounds (tl rks) st) (hd rks)"

definition AES :: "bytes \<Rightarrow> block \<Rightarrow> block" where
  "AES key x = Abs_block (Cipher (round_keys key) (Rep_block x))"

definition AES_inv :: "bytes \<Rightarrow> block \<Rightarrow> block" where
  "AES_inv key x = Abs_block (InvCipher (round_keys key) (Rep_block x))"

subsection \<open>The interface of the standard library\<close>

text \<open>\<open>aes.NewCipher(key)\<close>: a \<open>KeySizeError\<close> unless the key has 16, 24 or 32 bytes.\<close>

definition NewCipher :: "bytes \<Rightarrow> error + (block \<Rightarrow> block)" where
  "NewCipher key =
     (if length key = 16 \<or> length key = 24 \<or> length key = 32 then Inr (AES key)
      else Inl (KeySizeError (length key)))"

text \<open>\<open>block.BlockSize()\<close> of an AES cipher.\<close>

definition BlockSize :: nat where
  "BlockSize = 16"

text \<open>\<open>block.Encrypt(dst, src)\<close>: the bytes written to \<open>dst\<close>, the encryption of the
  first block of \<open>src\<close>; it panics on a shorter \<open>src\<close>.\<close>

definition Encrypt :: "(block \<Rightarrow> block) \<Rightarrow> bytes \<Rightarrow> error + bytes" where
  "Encrypt blk src =
     (if length src < 16 then Inl (Panic ''crypto/aes: input not full block'')
      else Inr (Rep_block (blk (Abs_block (take 16 src)))))"

text \<open>Go's \<open>s[i:j]\<close> within the length, and a write of \<open>src\<close> into \<open>dst[i:]\<close>.\<close>

definition slice :: "'a list \<Rightarrow> nat \<Rightarrow> nat \<Rightarrow> 'a list" where
  "slice xs i j = take (j - i) (drop i xs)"

definition write_at :: "'a list \<Rightarrow> nat \<Rightarrow> 'a list \<Rightarrow> 'a list" where
  "write_at dst i src = take i dst @ src @ drop (i + length src) dst"

subsection \<open>CBC\<close>

text \<open>
  \<open>cipher.NewCBCEncrypter(block, iv)\<close> followed by \<open>CryptBlocks(dst, src)\<close>: each block
  is XORed with the previous ciphertext block (the IV for the first) and encrypted.
  The constructor panics unless the IV is one block long, and \<open>CryptBlocks\<close> unless the
  input is a whole number of blocks.
\<close>

function cbc_blocks :: "(block \<Rightarrow> block) \<Rightarrow> bytes \<Rightarrow> bytes \<Rightarrow> bytes" where
  "cbc_blocks blk iv src =
     (if length src < 16 then []
      else (let c = Rep_block (blk (Abs_block (xor_bytes (take 16 src) iv)))
            in c @ cbc_blocks blk c (drop 16 src)))"
  by pat_completeness auto
termination
  by (relation "measure (\<lambda>(blk, iv, src). length src)") auto

declare cbc_blocks.simps [simp del]

definition CryptBlocks :: "(block \<Rightarrow> block) \<Rightarrow> bytes \<Rightarrow> bytes \<Rightarrow> error + bytes" where
  "CryptBlocks blk iv src =
     (if length iv \<noteq> 16 then Inl (Panic ''cipher.NewCBCEncrypter: IV length must equal block size'')
      else if length src mod 16 \<noteq> 0 then Inl (Panic ''crypto/cipher: input not full blocks'')
      else Inr (cbc_blocks blk iv src))"

subsection \<open>ECB\<close>

text \<open>
  The loop of the \<open>ECB\<close> case: \<open>for i := 0; i < len(paddedData); i += blockSize\<close>, one
  \<open>block.Encrypt\<close> per step, written into \<open>encrypted\<close> at the same offset.
\<close>

function ecb_loop :: "(block \<Rightarrow> block) \<Rightarrow> bytes \<Rightarrow> nat \<Rightarrow> bytes \<Rightarrow> error + bytes" where
  "ecb_loop blk paddedData i encrypted =
     (if i < length paddedData then
        (if length paddedData < i + 16 then Inl (Panic ''slice bounds out of range'')
         else (case Encrypt blk (slice paddedData i (i + 16)) of
                 Inl e \<Rightarrow> Inl e
               | Inr c \<Rightarrow> ecb_loop blk paddedData (i + 16) (write_at encrypted i c)))
      else Inr encrypted)"
  by pat_completeness auto
termination
  by (relation "measure (\<lambda>(blk, paddedData, i, encrypted). length paddedData - i)") auto

declare ecb_loop.simps [simp del]

subsection \<open>GCM\<close>

text \<open>
  \<open>cipher.NewGCM(block)\<close> and \<open>Seal(nil, nonce, plaintext, additionalData)\<close>, as NIST
  SP 800-38D defines them for a 12-byte nonce and a 16-byte tag. A block is read as a
  128-bit word, first byte most significant.
\<close>

definition word_of_bytes :: "bytes \<Rightarrow> 128 word" where
  "word_of_bytes bs = foldl (\<lambda>w b. push_bit 8 w OR ucast b) 0 bs"

definition bytes_of_word :: "128 word \<Rightarrow> bytes" where
  "bytes_of_word w = map (\<lambda>i. ucast (drop_bit (8 * (15 - i)) w)) [0..<16]"

text \<open>Multiplication in GF(2^128): bit \<open>i\<close> of the standard is bit \<open>127 - i\<close> of the word.\<close>

fun gf_mul_steps :: "nat \<Rightarrow> 128 word \<Rightarrow> 128 word \<Rightarrow> 128 word \<Rightarrow> 128 word" where
  "gf_mul_steps 0 x z v = z"
| "gf_mul_steps (Suc n) x z v =
     gf_mul_steps n x
       (if bit x n then z XOR v else z)
       (if bit v 0 then drop_bit 1 v XOR push_bit 120 225 else drop_bit 1 v)"

definition gf_mul :: "128 word \<Rightarrow> 128 word \<Rightarrow> 128 word" where
  "gf_mul x y = gf_mul_steps 128 x 0 y"

text \<open>GHASH over the blocks of \<open>data\<close>, the last one filled with zero bytes.\<close>

function ghash :: "128 word \<Rightarrow> 128 word \<Rightarrow> bytes \<Rightarrow> 128 word" where
  "ghash h y data =
     (if data = [] then y
      else ghash h
             (gf_mul (y XOR word_of_bytes (take 16 data @ replicate (16 - length data) 0)) h)
             (drop 16 data))"
  by pat_completeness auto
termination
  by (relation "measure (\<lambda>(h, y, data). length data)") auto

declare ghash.simps [simp del]

definition be32 :: "nat \<Rightarrow> bytes" where
  "be32 n = [of_nat (n div 16777216), of_nat (n div 65536), of_nat (n div 256), of_nat n]"

text \<open>The counter-mode key stream, XORed onto the data; the last block may be short.\<close>

function gctr :: "(block \<Rightarrow> block) \<Rightarrow> bytes \<Rightarrow> nat \<Rightarrow> bytes \<Rightarrow> bytes" where
  "gctr blk nonce ctr data =
     (if data = [] then []
      else xor_bytes (take 16 data) (Rep_block (blk (Abs_block (nonce @ be32 ctr))))
           @ gctr blk nonce (ctr + 1) (drop 16 data))"
  by pat_completeness auto
termination
  by (relation "measure (\<lambda>(blk, nonce, ctr, data). length data)") auto

declare gctr.simps [simp del]

definition gcm_tag :: "(block \<Rightarrow> block) \<Rightarrow> bytes \<Rightarrow> bytes \<Rightarrow> bytes \<Rightarrow> bytes" where
  "gcm_tag blk nonce additionalData ct =
     (let h = word_of_bytes (Rep_block (blk (Abs_block (replicate 16 0))));
          lens = push_bit 64 (of_nat (8 * length additionalData)) OR of_nat (8 * length ct);
          s = gf_mul (ghash h (ghash h 0 additionalData) ct XOR lens) h
      in bytes_of_word (s XOR word_of_bytes (Rep_block (blk (Abs_block (nonce @ be32 1))))))"

definition Seal :: "(block \<Rightarrow> block) \<Rightarrow> bytes \<Rightarrow> bytes \<Rightarrow> bytes \<Rightarrow> error + bytes" where
  "Seal blk nonce plaintext additionalData =
     (if length nonce \<noteq> 12 then Inl (Panic ''crypto/cipher: incorrect nonce length given to GCM'')
      else if (2 ^ 32 - 2) * 16 < length plaintext then
        Inl (Panic ''crypto/cipher: message too large for GCM'')
      else (let ct = gctr blk nonce 2 plaintext
            in Inr (ct @ gcm_tag blk nonce additionalData ct)))"

section \<open>Encryption\<close>

text \<open>
  \<open>func aesEncrypt(data []byte, opt *EncOpt) (string, error)\<close>. \<open>cipher.NewGCM\<close> has no
  error for a cipher with blocks of sixteen bytes. The recursive equations of the loops
  above are unfolded by hand in the proofs.
\<close>

definition aesEncrypt :: "bytes \<Rightarrow> EncOpt \<Rightarrow> error + string" where
  "aesEncrypt data opt =
     (let key = bytes_of_string (Key opt) in
      case NewCipher key of
        Inl err \<Rightarrow> Inl err
      | Inr blk \<Rightarrow>
          (let blockSize = BlockSize; mode = ToUpper (Mode opt) in
           if mode = ''CBC'' then
             (let iv = bytes_of_string (Iv opt) in
              if length iv \<noteq> blockSize then Inl (ErrCBCIVLength blockSize)
              else
                (case pKCS7Padding data (int blockSize) of
                   Inl err \<Rightarrow> Inl err
                 | Inr paddedData \<Rightarrow>
                     (case CryptBlocks blk iv paddedData of
                        Inl err \<Rightarrow> Inl err
                      | Inr encrypted \<Rightarrow> Inr (EncodeToString encrypted))))
           else if mode = ''ECB'' then
             (case pKCS7Padding data (int blockSize) of
                Inl err \<Rightarrow> Inl err
              | Inr paddedData \<Rightarrow>
                  (case ecb_loop blk paddedData 0 (replicate (length paddedData) 0) of
                     Inl err \<Rightarrow> Inl err
                   | Inr encrypted \<Rightarrow> Inr (EncodeToString encrypted)))
           else if mode = ''GCM'' then
             (let nonce = bytes_of_string (Iv opt) in
              if length nonce \<noteq> 12 then Inl ErrGCMNonceLength
              else
                (case Seal blk nonce data [] of
                   Inl err \<Rightarrow> Inl err
                 | Inr encrypted \<Rightarrow> Inr (EncodeToString encrypted)))
           else Inl ErrUnsupportedMode))"

section \<open>Payload preparation\<close>

text \<open>
  \<open>make([]string, n, c)\<close> has \<open>n\<close> empty strings, and \<open>copy(dst, src)\<close> overwrites the first
  \<open>min(len(dst), len(src))\<close> elements of \<open>dst\<close>: the length of \<open>dst\<close> does not change.
\<close>

definition make_strings :: "nat \<Rightarrow> string list" where
  "make_strings n = replicate n []"

definition copy_strings :: "string list \<Rightarrow> string list \<Rightarrow> string list" where
  "copy_strings dst src =
     take (min (length dst) (length src)) src @ drop (min (length dst) (length src)) dst"

text \<open>Steps 2 and 3 of \<open>preparePayload\<close>: the copy with the routing keys and \<open>Enc\<close>
  cleared, and its serialisation.\<close>

definition encOpts :: "Options \<Rightarrow> Options" where
  "encOpts opts = opts\<lparr>DeviceKey := [], DeviceKeys := [], Enc := None\<rparr>"

definition plainBytes :: "(string \<Rightarrow> string) \<Rightarrow> Options \<Rightarrow> bytes" where
  "plainBytes quote opts = Marshal_Options quote (encOpts opts)"

text \<open>Step 5 of \<open>preparePayload\<close>: the outer map, from the ciphertext and the routing
  keys saved in step 1.\<close>

definition encryptedPayload :: "string \<Rightarrow> string \<Rightarrow> string list \<Rightarrow> error + (string \<times> json) list" where
  "encryptedPayload cipherText deviceKeyToUse deviceKeysToUse =
     (let payload = map_set [] ''ciphertext'' (JString cipherText) in
      if length deviceKeysToUse > 0 then
        (let finalRoutingKeys = copy_strings (make_strings 0) deviceKeysToUse;
             finalRoutingKeys =
               (if deviceKeyToUse \<noteq> [] \<and> deviceKeyToUse \<notin> set finalRoutingKeys
                then finalRoutingKeys @ [deviceKeyToUse] else finalRoutingKeys)
         in
           if length finalRoutingKeys > 1 then
             Inr (map_set payload ''device_keys'' (JArray (map JString finalRoutingKeys)))
           else if length finalRoutingKeys = 1 then
             Inr (map_set payload ''device_key'' (JString (finalRoutingKeys ! 0)))
           else Inl ErrMissingRoutingKey)
      else Inr (map_set payload ''device_key'' (JString deviceKeyToUse)))"

text \<open>\<open>func (c *Client) preparePayload(o *Options) ([]byte, error)\<close>; the client is not
  used.\<close>

definition preparePayload :: "(string \<Rightarrow> string) \<Rightarrow> Options \<Rightarrow> error + bytes" where
  "preparePayload quote opts =
     (case Enc opts of
        None \<Rightarrow> Inr (Marshal_Options quote opts)
      | Some enc \<Rightarrow>
          (case aesEncrypt (plainBytes quote opts) enc of
             Inl err \<Rightarrow> Inl err
           | Inr cipherText \<Rightarrow>
               (case encryptedPayload cipherText (DeviceKey opts) (DeviceKeys opts) of
                  Inl err \<Rightarrow> Inl err
                | Inr payload \<Rightarrow> Inr (Marshal_map quote payload))))"

text \<open>The first two steps of \<open>func (c *Client) Push(o *Options) error\<close>: the request
  body, or the error \<open>Push\<close> returns before it sends anything.\<close>

definition Push_body :: "(string \<Rightarrow> string) \<Rightarrow> Options \<Rightarrow> error + bytes" where
  "Push_body quote opts =
     (case Validate opts of
        Some err \<Rightarrow> Inl err
      | None \<Rightarrow> preparePayload quote opts)"

section \<open>The receiving side\<close>

text \<open>
  What the receiver of a push does with the ciphertext, as the specification words it:
  base64 decoding, the standard decryption of the mode under the same key and IV, and the
  removal of the PKCS7 padding.
\<close>

function cbc_decrypt_blocks :: "(block \<Rightarrow> block) \<Rightarrow> bytes \<Rightarrow> bytes \<Rightarrow> bytes" where
  "cbc_decrypt_blocks dec iv src =
     (if length src < 16 then []
      else xor_bytes (Rep_block (dec (Abs_block (take 16 src)))) iv
           @ cbc_decrypt_blocks dec (take 16 src) (drop 16 src))"
  by pat_completeness auto
termination
  by (relation "measure (\<lambda>(dec, iv, src). length src)") auto

declare cbc_decrypt_blocks.simps [simp del]

text \<open>Each block through the same block function, no chaining.\<close>

function map_blocks :: "(block \<Rightarrow> block) \<Rightarrow> bytes \<Rightarrow> bytes" where
  "map_blocks f src =
     (if length src < 16 then []
      else Rep_block (f (Abs_block (take 16 src))) @ map_blocks f (drop 16 src))"
  by pat_completeness auto
termination
  by (relation "measure (\<lambda>(f, src). length src)") auto

declare map_blocks.simps [simp del]

definition pKCS7Unpadding :: "bytes \<Rightarrow> bytes option" where
  "pKCS7Unpadding data =
     (if data = [] then None
      else (let n = unat (last data) in
            if n = 0 \<or> 16 < n \<or> length data < n
               \<or> drop (length data - n) data \<noteq> replicate n (last data)
            then None
            else Some (take (length data - n) data)))"

definition cbc_decrypt :: "(block \<Rightarrow> block) \<Rightarrow> bytes \<Rightarrow> bytes \<Rightarrow> bytes option" where
  "cbc_decrypt dec iv ct =
     (if length iv \<noteq> 16 \<or> length ct mod 16 \<noteq> 0 then None
      else pKCS7Unpadding (cbc_decrypt_blocks dec iv ct))"

definition ecb_decrypt :: "(block \<Rightarrow> block) \<Rightarrow> bytes \<Rightarrow> bytes option" where
  "ecb_decrypt dec ct =
     (if length ct mod 16 \<noteq> 0 then None else pKCS7Unpadding (map_blocks dec ct))"

text \<open>
  \<open>Open\<close> of GCM: the tag is recomputed over the received ciphertext and compared; a
  mismatch is the authentication failure \<open>None\<close>.
\<close>

definition Open :: "(block \<Rightarrow> block) \<Rightarrow> bytes \<Rightarrow> bytes \<Rightarrow> bytes \<Rightarrow> bytes option" where
  "Open blk nonce ciphertext additionalData =
     (if length nonce \<noteq> 12 \<or> length ciphertext < 16 then None
      else (let ct = take (length ciphertext - 16) ciphertext;
                tag = drop (length ciphertext - 16) ciphertext
            in if tag \<noteq> gcm_tag blk nonce additionalData ct then None
               else Some (gctr blk nonce 2 ct)))"

definition aesDecrypt :: "string \<Rightarrow> EncOpt \<Rightarrow> bytes option" where
  "aesDecrypt cipherText opt =
     (case DecodeString cipherText of
        None \<Rightarrow> None
      | Some raw \<Rightarrow>
          (let key = bytes_of_string (Key opt);
               iv = bytes_of_string (Iv opt);
               mode = ToUpper (Mode opt)
           in if mode = ''CBC'' then cbc_decrypt (AES_inv key) iv raw
              else if mode = ''ECB'' then ecb_decrypt (AES_inv key) raw
              else if mode = ''GCM'' then Open (AES key) iv raw []
              else None))"

text \<open>The padded plaintext for the block size 16, written out.\<close>

definition padded16 :: "bytes \<Rightarrow> bytes" where
  "padded16 data = data @ replicate (16 - length data mod 16) (of_nat (16 - length data mod 16))"

section \<open>The rules of the specification and example requests\<close>

text \<open>
  The validation rules as the specification lists them, in its order: missing device
  key, missing content, then for a request with an encryption spec the key length, the
  mode (compared in upper case), the IV of CBC and the nonce of GCM.
\<close>

definition validate_rules :: "Options \<Rightarrow> error option" where
  "validate_rules opts =
     (if DeviceKey opts = [] \<and> DeviceKeys opts = [] then Some ErrDeviceKeyRequired
      else if Title opts = [] \<and> Body opts = [] \<and> Markdown opts = [] then Some ErrContentRequired
      else case Enc opts of
        None \<Rightarrow> None
      | Some enc \<Rightarrow>
          if length (Key enc) \<notin> {16, 24, 32} then Some ErrKeyLength
          else if ToUpper (Mode enc) \<notin> {''CBC'', ''ECB'', ''GCM''} then
            Some (ErrUnsupportedModeOf (Mode enc))
          else if ToUpper (Mode enc) = ''CBC'' \<and> Iv enc = [] then Some ErrCBCRequiresIV
          else if ToUpper (Mode enc) = ''GCM'' \<and> Iv enc = [] then Some ErrGCMRequiresNonce
          else None)"

text \<open>The zero value of \<open>Options\<close>, from which the example requests are built.\<close>

definition zero_Options :: Options where
  "zero_Options =
     \<lparr>DeviceKey = [], DeviceKeys = [], Title = [], Body = [], Markdown = [], Subtitle = [],
      Group = [], URL = [], Icon = [], Sound = [], Badge = None, Level = [], Copy = [],
      AutoCopy = [], IsArchive = None, Call = [], Volume = None, Action = [], ID = [],
      Delete = [], Enc = None\<rparr>"

text \<open>A request that names GCM in lower case and carries a nonce of five bytes.\<close>

definition short_nonce_request :: Options where
  "short_nonce_request =
     zero_Options\<lparr>DeviceKey := ''abc'', Title := ''T'',
       Enc := Some \<lparr>Mode = ''gcm'', Key = ''1234567890abcdef'', Iv = ''12345''\<rparr>\<rparr>"

text \<open>The encryption options of the examples in the README and in the specification.\<close>

definition cbc_example :: EncOpt where
  "cbc_example = \<lparr>Mode = ''CBC'', Key = ''1234567890abcdef'', Iv = ''1111111111111111''\<rparr>"

definition ecb_example :: EncOpt where
  "ecb_example = \<lparr>Mode = ''ecb'', Key = ''32byteskey32byteskey32byteskey32'', Iv = []\<rparr>"

definition gcm_example :: EncOpt where
  "gcm_example = \<lparr>Mode = ''GCM'', Key = ''16byteskey123456'', Iv = ''12bytesnonce''\<rparr>"

text \<open>
  A string literal for the examples: the string between double quotes, which is what
  \<open>encoding/json\<close> writes for letters, digits and underscores.
\<close>

definition quote_plain :: "string \<Rightarrow> string" where
  "quote_plain s = CHR 0x22 # s @ [CHR 0x22]"

text \<open>The scenarios B, C and D of the specification, and the batch push of the README
  with encryption switched on, once with a usable IV and once with one that is too short.\<close>

definition scenario_B :: Options where
  "scenario_B =
     zero_Options\<lparr>DeviceKey := ''abc'', Title := ''T'', Body := ''B'', Enc := Some cbc_example\<rparr>"

definition scenario_C :: Options where
  "scenario_C =
     zero_Options\<lparr>DeviceKey := ''a'', DeviceKeys := [''a'', ''b'', ''c''], Title := ''T'',
       Body := ''B'', Enc := Some cbc_example\<rparr>"

definition scenario_D :: Options where
  "scenario_D = zero_Options\<lparr>Title := ''T'', Body := ''B'', Enc := Some cbc_example\<rparr>"



section \<open>The caller's memory\<close>

text \<open>
  \<open>Validate\<close> and \<open>preparePayload\<close> get a pointer to the caller's \<open>Options\<close>; its slice
  shares a backing array with the caller and its \<open>Enc\<close> points to the caller's \<open>EncOpt\<close>.
  To say what the two functions do to that memory, they are written a second time over a
  store: the structs and the backing arrays of \<open>[]string\<close> slices by address, and the
  next free address. Every assignment and every write of the source is an update of a
  local value or of the store, whichever the source has. Byte slices stay values: each
  one the two functions touch is made inside them (\<open>json.Marshal\<close>, \<open>[]byte(s)\<close>,
  \<open>make\<close>, \<open>Seal(nil, ...)\<close>), never handed in by the caller.
\<close>

type_synonym addr = nat

record slice_header =
  sl_array :: "addr option"
  sl_len :: nat
  sl_cap :: nat

definition nil_slice :: slice_header where
  "nil_slice = \<lparr>sl_array = None, sl_len = 0, sl_cap = 0\<rparr>"

type_synonym Options_mem = "(slice_header, addr option) Options_struct"

record store =
  options :: "addr \<rightharpoonup> Options_mem"
  encopts :: "addr \<rightharpoonup> EncOpt"
  arrays :: "addr \<rightharpoonup> string list"
  next_addr :: addr

text \<open>The elements of a slice, and the value a struct in memory stands for.\<close>

definition slice_elems :: "store \<Rightarrow> slice_header \<Rightarrow> string list" where
  "slice_elems st s =
     (case sl_array s of
        None \<Rightarrow> []
      | Some a \<Rightarrow> (case arrays st a of None \<Rightarrow> [] | Some xs \<Rightarrow> take (sl_len s) xs))"

definition Options_value :: "store \<Rightarrow> Options_mem \<Rightarrow> Options" where
  "Options_value st ov =
     \<lparr>DeviceKey = DeviceKey ov, DeviceKeys = slice_elems st (DeviceKeys ov), Title = Title ov,
      Body = Body ov, Markdown = Markdown ov, Subtitle = Subtitle ov, Group = Group ov,
      URL = URL ov, Icon = Icon ov, Sound = Sound ov, Badge = Badge ov, Level = Level ov,
      Copy = Copy ov, AutoCopy = AutoCopy ov, IsArchive = IsArchive ov, Call = Call ov,
      Volume = Volume ov, Action = Action ov, ID = ID ov, Delete = Delete ov,
      Enc = (case Enc ov of None \<Rightarrow> None | Some q \<Rightarrow> encopts st q)\<rparr>"

text \<open>
  \<open>make([]string, n, c)\<close> takes a new array; \<open>copy(dst, src)\<close> writes the first
  \<open>min(len(dst), len(src))\<close> elements of \<open>dst\<close>'s array; \<open>append(s, x)\<close> writes in place
  when the capacity allows and moves to a new array otherwise.
\<close>

definition make_slice :: "nat \<Rightarrow> nat \<Rightarrow> store \<Rightarrow> slice_header \<times> store" where
  "make_slice n c st =
     (\<lparr>sl_array = Some (next_addr st), sl_len = n, sl_cap = c\<rparr>,
      st\<lparr>arrays := (arrays st)(next_addr st \<mapsto> replicate c []), next_addr := Suc (next_addr st)\<rparr>)"

definition write_array :: "slice_header \<Rightarrow> (string list \<Rightarrow> string list) \<Rightarrow> store \<Rightarrow> store" where
  "write_array s f st =
     (case sl_array s of
        None \<Rightarrow> st
      | Some a \<Rightarrow>
          (case arrays st a of
             None \<Rightarrow> st
           | Some old \<Rightarrow> st\<lparr>arrays := (arrays st)(a \<mapsto> f old)\<rparr>))"

definition copy_slice :: "slice_header \<Rightarrow> slice_header \<Rightarrow> store \<Rightarrow> store" where
  "copy_slice dst src st =
     (let n = min (sl_len dst) (sl_len src)
      in write_array dst (\<lambda>old. take n (slice_elems st src) @ drop n old) st)"

definition append_slice :: "slice_header \<Rightarrow> string \<Rightarrow> store \<Rightarrow> slice_header \<times> store" where
  "append_slice s x st =
     (if sl_len s < sl_cap s then
        (s\<lparr>sl_len := Suc (sl_len s)\<rparr>, write_array s (\<lambda>old. old[sl_len s := x]) st)
      else
        (case make_slice (Suc (sl_len s)) (Suc (sl_len s)) st of
           (s', st') \<Rightarrow> (s', write_array s' (\<lambda>old. slice_elems st s @ [x]) st')))"

text \<open>\<open>func (o *Options) Validate() error\<close> over the store: the error and the store
  afterwards.\<close>

definition Validate_mem :: "addr \<Rightarrow> store \<Rightarrow> error option \<times> store" where
  "Validate_mem p st =
     (case options st p of
        None \<Rightarrow> (Some (Panic ''nil pointer dereference''), st)
      | Some ov \<Rightarrow>
          if length (DeviceKey ov) = 0 \<and> sl_len (DeviceKeys ov) = 0 then
            (Some ErrDeviceKeyRequired, st)
          else if Title ov = [] \<and> Body ov = [] \<and> Markdown ov = [] then
            (Some ErrContentRequired, st)
          else
            (case Enc ov of
               None \<Rightarrow> (None, st)
             | Some q \<Rightarrow>
                 (case encopts st q of
                    None \<Rightarrow> (Some (Panic ''nil pointer dereference''), st)
                  | Some enc \<Rightarrow>
                      (let keyLen = length (Key enc) in
                       if keyLen \<noteq> 16 \<and> keyLen \<noteq> 24 \<and> keyLen \<noteq> 32 then (Some ErrKeyLength, st)
                       else
                         (let mode = ToUpper (Mode enc) in
                          if mode = EncModeCBC then
                            (if length (Iv enc) = 0 then (Some ErrCBCRequiresIV, st) else (None, st))
                          else if mode = EncModeGCM then
                            (if length (Iv enc) = 0 then (Some ErrGCMRequiresNonce, st)
                             else (None, st))
                          else if mode = EncModeECB then (None, st)
                          else (Some (ErrUnsupportedModeOf (Mode enc)), st))))))"

text \<open>
  \<open>preparePayload\<close> over the store, step 5 first. \<open>finalRoutingKeys\<close> is a slice of a new
  array, and \<open>copy\<close> and \<open>append\<close> write into that array. \<open>encOpts := *o\<close> is a local
  struct: clearing its fields is an update of the local value.
\<close>

definition encryptedPayload_mem ::
  "string \<Rightarrow> string \<Rightarrow> slice_header \<Rightarrow> store \<Rightarrow> (error + (string \<times> json) list) \<times> store" where
  "encryptedPayload_mem cipherText deviceKeyToUse deviceKeysToUse st =
     (let payload = map_set [] ''ciphertext'' (JString cipherText) in
      if sl_len deviceKeysToUse > 0 then
        (case make_slice 0 (sl_len deviceKeysToUse + 1) st of
           (made, st1) \<Rightarrow>
             (let st2 = copy_slice made deviceKeysToUse st1 in
              case (if deviceKeyToUse \<noteq> [] \<and> deviceKeyToUse \<notin> set (slice_elems st2 made)
                    then append_slice made deviceKeyToUse st2
                    else (made, st2)) of
                (finalRoutingKeys, st3) \<Rightarrow>
                  if sl_len finalRoutingKeys > 1 then
                    (Inr (map_set payload ''device_keys''
                            (JArray (map JString (slice_elems st3 finalRoutingKeys)))), st3)
                  else if sl_len finalRoutingKeys = 1 then
                    (Inr (map_set payload ''device_key''
                            (JString (slice_elems st3 finalRoutingKeys ! 0))), st3)
                  else (Inl ErrMissingRoutingKey, st3)))
      else (Inr (map_set payload ''device_key'' (JString deviceKeyToUse)), st))"

definition preparePayload_mem ::
  "(string \<Rightarrow> string) \<Rightarrow> addr \<Rightarrow> store \<Rightarrow> (error + bytes) \<times> store" where
  "preparePayload_mem quote p st =
     (case options st p of
        None \<Rightarrow> (Inl (Panic ''nil pointer dereference''), st)
      | Some ov \<Rightarrow>
          (case Enc ov of
             None \<Rightarrow> (Inr (Marshal_Options quote (Options_value st ov)), st)
           | Some q \<Rightarrow>
               (let deviceKeyToUse = DeviceKey ov;
                    deviceKeysToUse = DeviceKeys ov;
                    encOptsLocal = ov\<lparr>DeviceKey := [], DeviceKeys := nil_slice, Enc := None\<rparr>;
                    plain = Marshal_Options quote (Options_value st encOptsLocal)
                in case encopts st q of
                     None \<Rightarrow> (Inl (Panic ''nil pointer dereference''), st)
                   | Some enc \<Rightarrow>
                       (case aesEncrypt plain enc of
                          Inl err \<Rightarrow> (Inl err, st)
                        | Inr cipherText \<Rightarrow>
                            (case encryptedPayload_mem cipherText deviceKeyToUse deviceKeysToUse st of
                               (Inl err, st') \<Rightarrow> (Inl err, st')
                             | (Inr payload, st') \<Rightarrow> (Inr (Marshal_map quote payload), st'))))))"

text \<open>
  What the caller can see of a store is unchanged: the structs, and every array that
  existed before. A store is well formed when its arrays lie below the next free address,
  and a struct when its slice lies within an array and its \<open>Enc\<close> points to an \<open>EncOpt\<close>.
\<close>

definition unchanged :: "store \<Rightarrow> store \<Rightarrow> bool" where
  "unchanged st st' \<longleftrightarrow>
     options st' = options st \<and> encopts st' = encopts st \<and>
     (\<forall>a \<in> dom (arrays st). arrays st' a = arrays st a)"

definition wf_store :: "store \<Rightarrow> bool" where
  "wf_store st \<longleftrightarrow> (\<forall>a \<in> dom (arrays st). a < next_addr st)"

definition wf_Options :: "store \<Rightarrow> Options_mem \<Rightarrow> bool" where
  "wf_Options st ov \<longleftrightarrow>
     (sl_len (DeviceKeys ov) = 0 \<or>
      (\<exists>a xs. sl_array (DeviceKeys ov) = Some a \<and> arrays st a = Some xs
         \<and> sl_len (DeviceKeys ov) \<le> length xs)) \<and>
     (\<forall>q. Enc ov = Some q \<longrightarrow> q \<in> dom (encopts st))"

text \<open>Scenario C in memory: the struct at address 0, its \<open>EncOpt\<close> at address 0 and the
  backing array of its \<open>DeviceKeys\<close> at address 0.\<close>

definition scenario_C_mem :: Options_mem where
  "scenario_C_mem =
     \<lparr>DeviceKey = ''a'', DeviceKeys = \<lparr>sl_array = Some 0, sl_len = 3, sl_cap = 3\<rparr>,
      Title = ''T'', Body = ''B'', Markdown = [], Subtitle = [], Group = [], URL = [], Icon = [],
      Sound = [], Badge = None, Level = [], Copy = [], AutoCopy = [], IsArchive = None,
      Call = [], Volume = None, Action = [], ID = [], Delete = [], Enc = Some 0\<rparr>"

definition scenario_C_store :: store where
  "scenario_C_store =
     \<lparr>options = [0 \<mapsto> scenario_C_mem], encopts = [0 \<mapsto> cbc_example],
      arrays = [0 \<mapsto> [''a'', ''b'', ''c'']], next_addr = 1\<rparr>"

section \<open>Properties of validation\<close>

text \<open>
  C4. \<open>Validate\<close> applies the rules in the stated order, the first failure winning: it
  agrees with \<open>validate_rules\<close> on every request. For GCM it only asks for a non-empty
  nonce: a request that passes the earlier rules is accepted whatever the length of its
  nonce.
\<close>

theorem Validate_rules_in_order:
  "Validate opts = validate_rules opts \<and>
   (\<forall>enc. Enc opts = Some enc \<and> (DeviceKey opts \<noteq> [] \<or> DeviceKeys opts \<noteq> []) \<and>
      (Title opts \<noteq> [] \<or> Body opts \<noteq> [] \<or> Markdown opts \<noteq> []) \<and>
      length (Key enc) \<in> {16, 24, 32} \<and> ToUpper (Mode enc) = ''GCM'' \<and> Iv enc \<noteq> []
      \<longrightarrow> Validate opts = None)"
  by (auto simp: Validate_def validate_rules_def EncModeCBC_def EncModeECB_def EncModeGCM_def
        Let_def split: option.splits)

theorem Validate_rules_in_order_witness:
  "Validate short_nonce_request = None \<and> length (Iv (the (Enc short_nonce_request))) = 5"
proof -
  let ?enc = "\<lparr>Mode = ''gcm'', Key = ''1234567890abcdef'', Iv = ''12345''\<rparr>"
  have h: "Enc short_nonce_request = Some ?enc \<and>
      (DeviceKey short_nonce_request \<noteq> [] \<or> DeviceKeys short_nonce_request \<noteq> []) \<and>
      (Title short_nonce_request \<noteq> [] \<or> Body short_nonce_request \<noteq> [] \<or>
       Markdown short_nonce_request \<noteq> []) \<and>
      length (Key ?enc) \<in> {16, 24, 32} \<and> ToUpper (Mode ?enc) = ''GCM'' \<and> Iv ?enc \<noteq> []"
    by (simp add: short_nonce_request_def zero_Options_def ToUpper_def upper_char_def)
  from Validate_rules_in_order [of short_nonce_request, THEN conjunct2, rule_format, OF h]
  show ?thesis by (simp add: short_nonce_request_def)
qed

section \<open>Properties of the padding\<close>

lemma pKCS7Padding_16_eq:
  "pKCS7Padding data 16 =
     Inr (data @ replicate (16 - length data mod 16) (of_nat (16 - length data mod 16)))"
proof -
  have m: "int (length data) mod 16 = int (length data mod 16)" by (simp add: zmod_int)
  have lt: "length data mod 16 < 16" by simp
  have n: "nat (16 - int (length data mod 16)) = 16 - length data mod 16" using lt by linarith
  have "16 - int (length data mod 16) = int (16 - length data mod 16)" using lt by linarith
  then have w: "(word_of_int (16 - int (length data mod 16)) :: byte)
      = of_nat (16 - length data mod 16)"
    by simp
  show ?thesis using lt by (simp add: pKCS7Padding_def Let_def m n w)
qed

lemma pad_len_mod: "(n + (16 - n mod 16)) mod 16 = (0::nat)"
  by presburger

lemma unat_pad_byte: "unat (of_nat (16 - n mod 16) :: byte) = 16 - n mod 16"
proof -
  have "16 - n mod 16 < 256" by simp
  then show ?thesis by (simp add: unat_of_nat del: of_nat_diff)
qed

text \<open>
  C7. With the block size 16 of AES, the padding appends exactly N bytes of value N, where
  N = 16 - (length mod 16) lies between 1 and 16; a block-aligned input gets a full block
  of sixteen bytes 16; the padded length is a positive multiple of 16 and greater than
  the length of the input.
\<close>

theorem pKCS7Padding_block16:
  "\<exists>out. pKCS7Padding data 16 = Inr out
     \<and> out = data @ replicate (16 - length data mod 16) (of_nat (16 - length data mod 16))
     \<and> (\<forall>b \<in> set (drop (length data) out). unat b = 16 - length data mod 16)
     \<and> 1 \<le> 16 - length data mod 16 \<and> 16 - length data mod 16 \<le> 16
     \<and> (length data mod 16 = 0 \<longrightarrow> drop (length data) out = replicate 16 16)
     \<and> length out = length data + (16 - length data mod 16)
     \<and> length out mod 16 = 0 \<and> 0 < length out \<and> length data < length out"
proof -
  let ?N = "16 - length data mod 16"
  let ?out = "data @ replicate ?N (of_nat ?N :: byte)"
  have lt: "length data mod 16 < 16" by simp
  have res: "pKCS7Padding data 16 = Inr ?out" by (rule pKCS7Padding_16_eq)
  have vals: "\<forall>b \<in> set (drop (length data) ?out). unat b = ?N"
    using unat_pad_byte [of "length data"] by (simp del: of_nat_diff)
  have lo: "1 \<le> ?N" using lt by linarith
  have hi: "?N \<le> 16" using lt by linarith
  have full: "length data mod 16 = 0 \<longrightarrow> drop (length data) ?out = replicate 16 16" by simp
  have len: "length ?out = length data + ?N" by simp
  have mult: "length ?out mod 16 = 0" unfolding len by (rule pad_len_mod)
  have pos: "0 < length ?out" unfolding len using lt by linarith
  have more: "length data < length ?out" unfolding len using lt by linarith
  show ?thesis
    by (intro exI [of _ ?out] conjI) (fact res refl vals lo hi full len mult pos more)+
qed

theorem pKCS7Padding_block16_witness:
  "pKCS7Padding (replicate 16 7) 16 = Inr (replicate 16 7 @ replicate 16 16) \<and>
   pKCS7Padding [1, 2, 3] 16 = Inr ([1, 2, 3] @ replicate 13 13)"
  using pKCS7Padding_block16 [of "replicate 16 7"] pKCS7Padding_block16 [of "[1, 2, 3]"]
  by simp

section \<open>Properties of the base64 encoding\<close>

lemma distinct_encodeStd: "distinct encodeStd"
  by (simp add: encodeStd_def)

lemma length_encodeStd: "length encodeStd = 64"
  by (simp add: encodeStd_def)

lemma dec64_enc64: "n < 64 \<Longrightarrow> dec64 (enc64 n) = Some n"
  unfolding dec64_def enc64_def
  using map_of_zip_nth [of encodeStd "[0..<64]" n] distinct_encodeStd length_encodeStd
  by simp

lemma enc64_not_pad: "n < 64 \<Longrightarrow> enc64 n \<noteq> CHR ''=''"
proof -
  assume "n < 64"
  then have "enc64 n \<in> set encodeStd" by (simp add: enc64_def length_encodeStd)
  moreover have "CHR ''='' \<notin> set encodeStd" by (simp add: encodeStd_def)
  ultimately show ?thesis by metis
qed

lemma unat_byte_lt: "unat (b :: byte) < 256"
  using unsigned_less [of b, where 'a = nat] by simp

lemma sextets:
  fixes a b c :: nat
  assumes "a < 256" "b < 256" "c < 256"
  shows "a div 4 < 64" "a mod 4 * 16 + b div 16 < 64" "b mod 16 * 4 + c div 64 < 64" "c mod 64 < 64"
    "a mod 4 * 16 < 64" "b mod 16 * 4 < 64"
    "a div 4 * 4 + (a mod 4 * 16 + b div 16) div 16 = a"
    "(a mod 4 * 16 + b div 16) mod 16 * 16 + (b mod 16 * 4 + c div 64) div 4 = b"
    "(b mod 16 * 4 + c div 64) mod 4 * 64 + c mod 64 = c"
    "a div 4 * 4 + (a mod 4 * 16) div 16 = a"
    "(a mod 4 * 16 + b div 16) mod 16 * 16 + (b mod 16 * 4) div 4 = b"
proof -
  have a4: "a mod 4 < 4" and b16: "b mod 16 < 16" and c64: "c mod 64 < 64" by simp_all
  have bd: "b div 16 < 16" using assms(2) by (simp add: less_mult_imp_div_less)
  have cd: "c div 64 < 4" using assms(3) by (simp add: less_mult_imp_div_less)
  show "a div 4 < 64" using assms(1) by (simp add: less_mult_imp_div_less)
  show "a mod 4 * 16 + b div 16 < 64" using a4 bd by linarith
  show "b mod 16 * 4 + c div 64 < 64" using b16 cd by linarith
  show "c mod 64 < 64" by simp
  show "a mod 4 * 16 < 64" using a4 by linarith
  show "b mod 16 * 4 < 64" using b16 by linarith
  have d1: "(a mod 4 * 16 + b div 16) div 16 = a mod 4" using bd by simp
  have m1: "(a mod 4 * 16 + b div 16) mod 16 = b div 16" using bd by simp
  have d2: "(b mod 16 * 4 + c div 64) div 4 = b mod 16" using cd by simp
  have m2: "(b mod 16 * 4 + c div 64) mod 4 = c div 64" using cd by simp
  show "a div 4 * 4 + (a mod 4 * 16 + b div 16) div 16 = a" unfolding d1 by simp
  show "(a mod 4 * 16 + b div 16) mod 16 * 16 + (b mod 16 * 4 + c div 64) div 4 = b"
    unfolding m1 d2 by simp
  show "(b mod 16 * 4 + c div 64) mod 4 * 64 + c mod 64 = c" unfolding m2 by simp
  show "a div 4 * 4 + (a mod 4 * 16) div 16 = a" by simp
  show "(a mod 4 * 16 + b div 16) mod 16 * 16 + (b mod 16 * 4) div 4 = b" unfolding m1 by simp
qed

lemma Decode_quad:
  assumes "x1 < 64" "x2 < 64" "x3 < 64" "x4 < 64"
  shows "DecodeString (enc64 x1 # enc64 x2 # enc64 x3 # enc64 x4 # rest) =
    map_option (\<lambda>bs. of_nat (x1 * 4 + x2 div 16) # of_nat (x2 mod 16 * 16 + x3 div 4) #
       of_nat (x3 mod 4 * 64 + x4) # bs) (DecodeString rest)"
  using assms
  by (simp add: dec64_enc64 enc64_not_pad split: option.splits del: of_nat_add of_nat_mult)

lemma Decode_triple:
  assumes "x1 < 64" "x2 < 64" "x3 < 64"
  shows "DecodeString [enc64 x1, enc64 x2, enc64 x3, CHR ''=''] =
    Some [of_nat (x1 * 4 + x2 div 16), of_nat (x2 mod 16 * 16 + x3 div 4)]"
  using assms
  by (simp add: dec64_enc64 enc64_not_pad del: of_nat_add of_nat_mult)

lemma Decode_pair:
  assumes "x1 < 64" "x2 < 64"
  shows "DecodeString [enc64 x1, enc64 x2, CHR ''='', CHR ''=''] =
    Some [of_nat (x1 * 4 + x2 div 16)]"
  using assms
  by (simp add: dec64_enc64 enc64_not_pad del: of_nat_add of_nat_mult)

lemma byte_of_unat: "(of_nat (unat (a :: byte)) :: byte) = a"
  by simp

lemma DecodeString_EncodeToString: "DecodeString (EncodeToString bs) = Some bs"
proof (induction bs rule: EncodeToString.induct)
  case (1 a b c rest)
  note s = sextets [OF unat_byte_lt [of a] unat_byte_lt [of b] unat_byte_lt [of c]]
  have "DecodeString (EncodeToString (a # b # c # rest)) =
     map_option (\<lambda>bs. of_nat (unat a) # of_nat (unat b) # of_nat (unat c) # bs)
       (DecodeString (EncodeToString rest))"
    unfolding EncodeToString.simps append_Cons append_Nil
    by (subst Decode_quad) (simp_all only: s)
  then show ?case by (simp only: 1 byte_of_unat option.map)
next
  case (2 a b)
  note s = sextets [OF unat_byte_lt [of a] unat_byte_lt [of b] unat_byte_lt [of b]]
  have "DecodeString (EncodeToString [a, b]) = Some [of_nat (unat a), of_nat (unat b)]"
    unfolding EncodeToString.simps
    by (subst Decode_triple) (simp_all only: s)
  then show ?case by (simp only: byte_of_unat)
next
  case (3 a)
  note s = sextets [OF unat_byte_lt [of a] unat_byte_lt [of a] unat_byte_lt [of a]]
  have "DecodeString (EncodeToString [a]) = Some [of_nat (unat a)]"
    unfolding EncodeToString.simps
    by (subst Decode_pair) (simp_all only: s)
  then show ?case by (simp only: byte_of_unat)
next
  case 4
  show ?case by simp
qed

section \<open>Properties of the cipher modes\<close>

lemma length_bytes_of_string [simp]: "length (bytes_of_string s) = length s"
  by (simp add: bytes_of_string_def)

lemma length_Rep_block [simp]: "length (Rep_block x) = 16"
  using Rep_block [of x] by simp

lemma Rep_Abs_block: "length bs = 16 \<Longrightarrow> Rep_block (Abs_block bs) = bs"
  by (simp add: Abs_block_inverse)

lemma length_xor_bytes [simp]: "length (xor_bytes xs ys) = min (length xs) (length ys)"
  by (simp add: xor_bytes_def)

lemma xor_bytes_cancel: "length xs = length ys \<Longrightarrow> xor_bytes (xor_bytes xs ys) ys = xs"
  unfolding xor_bytes_def
  by (induction xs ys rule: list_induct2) (simp_all add: xor.assoc)

lemma mod16_short: "length (p :: bytes) mod 16 = 0 \<Longrightarrow> length p < 16 \<Longrightarrow> p = []"
  by auto

lemma mod16_drop: "length (p :: bytes) mod 16 = 0 \<Longrightarrow> \<not> length p < 16 \<Longrightarrow> length (drop 16 p) mod 16 = 0"
  by (simp add: le_mod_geq)

lemma cbc_roundtrip:
  "\<forall>x. dec (blk x) = x \<Longrightarrow> length iv = 16 \<Longrightarrow> length p mod 16 = 0 \<Longrightarrow>
     cbc_decrypt_blocks dec iv (cbc_blocks blk iv p) = p"
proof (induction blk iv p rule: cbc_blocks.induct)
  case (1 blk iv src)
  show ?case
  proof (cases "length src < 16")
    case True
    with 1(4) have "src = []" by (simp add: mod16_short)
    then show ?thesis by (simp add: cbc_blocks.simps cbc_decrypt_blocks.simps)
  next
    case False
    let ?x = "xor_bytes (take 16 src) iv"
    let ?c = "Rep_block (blk (Abs_block ?x))"
    have lx: "length ?x = 16" using False 1(3) by simp
    have unf: "cbc_blocks blk iv src = ?c @ cbc_blocks blk ?c (drop 16 src)"
      using False by (subst cbc_blocks.simps) (simp add: Let_def)
    have ih: "cbc_decrypt_blocks dec ?c (cbc_blocks blk ?c (drop 16 src)) = drop 16 src"
      using 1(1) [OF False refl 1(2)] mod16_drop [OF 1(4) False] by simp
    have first: "xor_bytes (Rep_block (dec (Abs_block ?c))) iv = take 16 src"
      using lx False 1(2) 1(3) by (simp add: Rep_block_inverse Rep_Abs_block xor_bytes_cancel)
    show ?thesis
      unfolding unf
      by (subst cbc_decrypt_blocks.simps) (simp add: ih first)
  qed
qed

lemma length_cbc_blocks: "length p mod 16 = 0 \<Longrightarrow> length (cbc_blocks blk iv p) = length p"
proof (induction blk iv p rule: cbc_blocks.induct)
  case (1 blk iv src)
  show ?case
  proof (cases "length src < 16")
    case True
    with 1(2) have "src = []" by (simp add: mod16_short)
    then show ?thesis by (simp add: cbc_blocks.simps)
  next
    case False
    then show ?thesis
      using 1(1) [OF False refl] mod16_drop [OF 1(2) False]
      by (subst cbc_blocks.simps) (simp add: Let_def)
  qed
qed

lemma pKCS7Unpadding_pad:
  "pKCS7Unpadding (data @ replicate (16 - length data mod 16) (of_nat (16 - length data mod 16))) = Some data"
proof -
  let ?N = "16 - length data mod 16"
  have lt: "length data mod 16 < 16" by simp
  have pos: "0 < ?N" using lt by linarith
  have le: "?N \<le> 16" by simp
  have last: "last (data @ replicate ?N (of_nat ?N :: byte)) = of_nat ?N"
    using pos by (simp del: of_nat_diff)
  show ?thesis
    unfolding pKCS7Unpadding_def last Let_def unat_pad_byte
    using pos le by (simp del: of_nat_diff) (use lt in arith)
qed

lemma length_padded16_mod: "length (padded16 data) mod 16 = 0"
proof -
  have "length (padded16 data) = length data + (16 - length data mod 16)"
    by (simp add: padded16_def)
  then show ?thesis by (simp only: pad_len_mod)
qed

lemma pKCS7Padding_padded16: "pKCS7Padding data 16 = Inr (padded16 data)"
  unfolding padded16_def by (rule pKCS7Padding_16_eq)

lemma pKCS7Unpadding_padded16: "pKCS7Unpadding (padded16 data) = Some data"
  unfolding padded16_def by (rule pKCS7Unpadding_pad)

lemma map_blocks_Nil [simp]: "map_blocks f [] = []"
  by (simp add: map_blocks.simps)

lemma map_blocks_step:
  "\<not> length src < 16 \<Longrightarrow>
   map_blocks f src = Rep_block (f (Abs_block (take 16 src))) @ map_blocks f (drop 16 src)"
  by (subst map_blocks.simps) simp

lemma length_map_blocks: "length p mod 16 = 0 \<Longrightarrow> length (map_blocks f p) = length p"
proof (induction f p rule: map_blocks.induct)
  case (1 f src)
  show ?case
  proof (cases "length src < 16")
    case True
    with 1(2) have "src = []" by (simp add: mod16_short)
    then show ?thesis by simp
  next
    case False
    then show ?thesis
      using 1(1) [OF False] mod16_drop [OF 1(2) False]
      by (simp add: map_blocks_step)
  qed
qed

lemma map_blocks_roundtrip:
  "\<forall>x. dec (f x) = x \<Longrightarrow> length p mod 16 = 0 \<Longrightarrow> map_blocks dec (map_blocks f p) = p"
proof (induction f p rule: map_blocks.induct)
  case (1 f src)
  show ?case
  proof (cases "length src < 16")
    case True
    with 1(3) have "src = []" by (simp add: mod16_short)
    then show ?thesis by simp
  next
    case False
    let ?c = "Rep_block (f (Abs_block (take 16 src)))"
    have ih: "map_blocks dec (map_blocks f (drop 16 src)) = drop 16 src"
      using 1(1) [OF False 1(2)] mod16_drop [OF 1(3) False] by simp
    have first: "Rep_block (dec (Abs_block ?c)) = take 16 src"
      using False 1(2) by (simp add: Rep_block_inverse Rep_Abs_block)
    have "map_blocks dec (?c @ map_blocks f (drop 16 src)) =
        Rep_block (dec (Abs_block ?c)) @ map_blocks dec (map_blocks f (drop 16 src))"
      by (subst map_blocks.simps) simp
    then show ?thesis
      by (simp add: map_blocks_step [OF False] ih first)
  qed
qed

lemma slice_block:
  "slice (xs @ ys) (length xs + i) (length xs + j) = slice ys i j"
  by (simp add: slice_def)

lemma map_blocks_block:
  "length p mod 16 = 0 \<Longrightarrow> j < length p div 16 \<Longrightarrow>
   slice (map_blocks f p) (16 * j) (16 * j + 16)
     = Rep_block (f (Abs_block (slice p (16 * j) (16 * j + 16))))"
proof (induction j arbitrary: p)
  case 0
  then have ge: "\<not> length p < 16" by (cases "length p < 16") simp_all
  show ?case
    by (simp add: map_blocks_step [OF ge] slice_def)
next
  case (Suc j)
  then have ge: "\<not> length p < 16" by (cases "length p < 16") simp_all
  have m: "length (drop 16 p) mod 16 = 0" by (rule mod16_drop [OF Suc(2) ge])
  have lt: "j < length (drop 16 p) div 16"
    using Suc(3) ge le_div_geq [of 16 "length p"] by simp
  have ih: "slice (map_blocks f (drop 16 p)) (16 * j) (16 * j + 16)
     = Rep_block (f (Abs_block (slice (drop 16 p) (16 * j) (16 * j + 16))))"
    by (rule Suc.IH [OF m lt])
  have a: "slice (map_blocks f p) (16 * Suc j) (16 * Suc j + 16)
      = slice (map_blocks f (drop 16 p)) (16 * j) (16 * j + 16)"
    by (simp add: map_blocks_step [OF ge] slice_def)
  have b: "slice (drop 16 p) (16 * j) (16 * j + 16) = slice p (16 * Suc j) (16 * Suc j + 16)"
    by (simp add: slice_def add.commute)
  show ?case unfolding a ih b ..
qed

lemma length_write_at:
  "i + length c \<le> length enc \<Longrightarrow> length (write_at enc i c) = length enc"
  by (simp add: write_at_def)

lemma take_write_at:
  "i + length c \<le> length enc \<Longrightarrow> take (i + length c) (write_at enc i c) = take i enc @ c"
  by (simp add: write_at_def)

lemma ecb_loop_blocks:
  "i \<le> length p \<Longrightarrow> (length p - i) mod 16 = 0 \<Longrightarrow> length enc = length p \<Longrightarrow>
   ecb_loop blk p i enc = Inr (take i enc @ map_blocks blk (drop i p))"
proof (induction blk p i enc rule: ecb_loop.induct)
  case (1 blk p i enc)
  show ?case
  proof (cases "i < length p")
    case False
    with 1(2) have "i = length p" by simp
    then show ?thesis using 1(4) by (subst ecb_loop.simps) simp
  next
    case True
    have ge: "\<not> length p < i + 16"
    proof
      assume "length p < i + 16"
      then have "length p - i < 16" by simp
      with 1(3) have "length p - i = 0" by auto
      with True show False by simp
    qed
    let ?src = "slice p i (i + 16)"
    let ?c = "Rep_block (blk (Abs_block (take 16 (drop i p))))"
    have src: "?src = take 16 (drop i p)" by (simp add: slice_def)
    have len_src: "length ?src = 16" using ge by (simp add: src)
    have enc: "Encrypt blk ?src = Inr ?c"
      using len_src by (simp add: Encrypt_def src)
    have m: "(length p - (i + 16)) mod 16 = 0"
      using 1(3) ge by (metis (no_types, lifting) diff_diff_left le_mod_geq not_less le_diff_conv2 True less_imp_le_nat add.commute)
    have lw: "length (write_at enc i ?c) = length p"
      using ge 1(4) by (simp add: length_write_at)
    have ih: "ecb_loop blk p (i + 16) (write_at enc i ?c)
        = Inr (take (i + 16) (write_at enc i ?c) @ map_blocks blk (drop (i + 16) p))"
      using 1(1) [OF True ge enc _ m lw] ge by simp
    have tk: "take (i + 16) (write_at enc i ?c) = take i enc @ ?c"
      using take_write_at [of i ?c enc] ge 1(4) by simp
    have mb: "map_blocks blk (drop i p) = ?c @ map_blocks blk (drop (i + 16) p)"
      using ge by (subst map_blocks_step) (simp_all add: add.commute)
    show ?thesis
      using True ge by (subst ecb_loop.simps) (simp add: enc ih tk mb)
  qed
qed

lemma aesEncrypt_bad_key:
  "\<not> (length (Key opt) = 16 \<or> length (Key opt) = 24 \<or> length (Key opt) = 32) \<Longrightarrow>
   aesEncrypt data opt = Inl (KeySizeError (length (Key opt)))"
  by (simp add: aesEncrypt_def NewCipher_def Let_def)

lemma aesEncrypt_CBC:
  assumes "length (Key opt) = 16 \<or> length (Key opt) = 24 \<or> length (Key opt) = 32"
    and "ToUpper (Mode opt) = ''CBC''" and "length (Iv opt) = 16"
  shows "aesEncrypt data opt =
    Inr (EncodeToString (cbc_blocks (AES (bytes_of_string (Key opt))) (bytes_of_string (Iv opt))
           (padded16 data)))"
  using assms
  by (simp add: aesEncrypt_def NewCipher_def Let_def BlockSize_def pKCS7Padding_padded16
      CryptBlocks_def length_padded16_mod)

lemma aesEncrypt_CBC_bad_iv:
  assumes "length (Key opt) = 16 \<or> length (Key opt) = 24 \<or> length (Key opt) = 32"
    and "ToUpper (Mode opt) = ''CBC''" and "length (Iv opt) \<noteq> 16"
  shows "aesEncrypt data opt = Inl (ErrCBCIVLength 16)"
  using assms
  by (simp add: aesEncrypt_def NewCipher_def Let_def BlockSize_def)

lemma aesEncrypt_ECB:
  assumes "length (Key opt) = 16 \<or> length (Key opt) = 24 \<or> length (Key opt) = 32"
    and "ToUpper (Mode opt) = ''ECB''"
  shows "aesEncrypt data opt =
    Inr (EncodeToString (map_blocks (AES (bytes_of_string (Key opt))) (padded16 data)))"
proof -
  have "ecb_loop (AES (bytes_of_string (Key opt))) (padded16 data) 0
          (replicate (length (padded16 data)) 0)
        = Inr (map_blocks (AES (bytes_of_string (Key opt))) (padded16 data))"
    using ecb_loop_blocks [of 0 "padded16 data" "replicate (length (padded16 data)) 0"]
    by (simp add: length_padded16_mod)
  then show ?thesis
    using assms
    by (simp add: aesEncrypt_def NewCipher_def Let_def BlockSize_def pKCS7Padding_padded16)
qed

lemma aesEncrypt_GCM:
  assumes "length (Key opt) = 16 \<or> length (Key opt) = 24 \<or> length (Key opt) = 32"
    and "ToUpper (Mode opt) = ''GCM''" and "length (Iv opt) = 12"
    and "length data \<le> (2 ^ 32 - 2) * 16"
  shows "aesEncrypt data opt =
    Inr (EncodeToString
      (gctr (AES (bytes_of_string (Key opt))) (bytes_of_string (Iv opt)) 2 data @
       gcm_tag (AES (bytes_of_string (Key opt))) (bytes_of_string (Iv opt)) []
         (gctr (AES (bytes_of_string (Key opt))) (bytes_of_string (Iv opt)) 2 data)))"
  using assms
  by (simp add: aesEncrypt_def NewCipher_def Let_def BlockSize_def Seal_def)

lemma aesEncrypt_GCM_bad_nonce:
  assumes "length (Key opt) = 16 \<or> length (Key opt) = 24 \<or> length (Key opt) = 32"
    and "ToUpper (Mode opt) = ''GCM''" and "length (Iv opt) \<noteq> 12"
  shows "aesEncrypt data opt = Inl ErrGCMNonceLength"
  using assms
  by (simp add: aesEncrypt_def NewCipher_def Let_def BlockSize_def)

lemma xor_bytes_cancel_le:
  "length xs \<le> length ys \<Longrightarrow> xor_bytes (xor_bytes xs ys) ys = xs"
  unfolding xor_bytes_def
proof (induction xs arbitrary: ys)
  case Nil
  then show ?case by simp
next
  case (Cons x xs)
  then show ?case by (cases ys) (simp_all add: xor.assoc)
qed

lemma gctr_Nil [simp]: "gctr blk nonce ctr [] = []"
  by (simp add: gctr.simps)

lemma gctr_step:
  "data \<noteq> [] \<Longrightarrow> gctr blk nonce ctr data =
     xor_bytes (take 16 data) (Rep_block (blk (Abs_block (nonce @ be32 ctr))))
     @ gctr blk nonce (ctr + 1) (drop 16 data)"
  by (subst gctr.simps) simp

lemma length_gctr: "length (gctr blk nonce ctr data) = length data"
proof (induction blk nonce ctr data rule: gctr.induct)
  case (1 blk nonce ctr data)
  show ?case
  proof (cases "data = []")
    case True
    then show ?thesis by simp
  next
    case False
    then show ?thesis using 1 [OF False] by (simp add: gctr_step)
  qed
qed

lemma gctr_involution: "gctr blk nonce ctr (gctr blk nonce ctr data) = data"
proof (induction blk nonce ctr data rule: gctr.induct)
  case (1 blk nonce ctr data)
  show ?case
  proof (cases "data = []")
    case True
    then show ?thesis by simp
  next
    case False
    let ?ks = "Rep_block (blk (Abs_block (nonce @ be32 ctr)))"
    let ?hd = "xor_bytes (take 16 data) ?ks"
    let ?tl = "gctr blk nonce (ctr + 1) (drop 16 data)"
    have lh: "length ?hd = min 16 (length data)" by simp
    have "?hd \<noteq> []"
    proof
      assume "?hd = []"
      then have "length ?hd = 0" by (simp only: list.size)
      with lh have "min 16 (length data) = 0" by (simp only:)
      with False show False by (cases data) (simp_all add: min_def split: if_splits)
    qed
    then have ne: "?hd @ ?tl \<noteq> []" by (simp only: append_is_Nil_conv simp_thms)
    have tk: "take 16 (?hd @ ?tl) = ?hd"
    proof (cases "length data < 16")
      case True
      then have "?tl = []" by simp
      then show ?thesis using lh by simp
    next
      case False
      then show ?thesis using lh by simp
    qed
    have dr: "drop 16 (?hd @ ?tl) = ?tl"
    proof (cases "length data < 16")
      case True
      then have "?tl = []" by simp
      then show ?thesis using lh by simp
    next
      case False
      then show ?thesis using lh by simp
    qed
    have unxor: "xor_bytes ?hd ?ks = take 16 data"
      by (rule xor_bytes_cancel_le) simp
    show ?thesis
      unfolding gctr_step [OF False]
      by (subst gctr_step [OF ne]) (simp only: tk dr unxor 1 [OF False] append_take_drop_id)
  qed
qed

lemma length_gcm_tag [simp]: "length (gcm_tag blk nonce aad ct) = 16"
  by (simp add: gcm_tag_def Let_def bytes_of_word_def)

lemma Open_Seal:
  "Seal blk nonce plaintext aad = Inr sealed \<Longrightarrow> Open blk nonce sealed aad = Some plaintext"
  by (auto simp: Seal_def Open_def Let_def length_gctr gctr_involution split: if_splits)

lemma Open_wrong_tag:
  "length tag = 16 \<Longrightarrow> tag \<noteq> gcm_tag blk nonce aad ct \<Longrightarrow> Open blk nonce (ct @ tag) aad = None"
  by (simp add: Open_def Let_def)

section \<open>The block function is invertible\<close>

lemma sbox_table_inverse:
  "list_all (\<lambda>n. inv_sbox ! unat (sbox ! n) = (of_nat n :: byte)) [0..<256]"
  by code_simp

lemma InvSubByte_SubByte: "InvSubByte (SubByte b) = b"
proof -
  have "unat b \<in> set [0..<256]" using unat_byte_lt [of b] by simp
  with sbox_table_inverse have "inv_sbox ! unat (sbox ! unat b) = (of_nat (unat b) :: byte)"
    unfolding list_all_iff by blast
  then show ?thesis by (simp add: InvSubByte_def SubByte_def)
qed

lemma InvSubBytes_SubBytes: "InvSubBytes (SubBytes st) = st"
  by (simp add: InvSubBytes_def SubBytes_def InvSubByte_SubByte comp_def)

lemma length_SubBytes [simp]: "length (SubBytes st) = length st"
  by (simp add: SubBytes_def)

lemma length_ShiftRows [simp]: "length (ShiftRows st) = 16"
  by (simp add: ShiftRows_def)

lemma list16:
  assumes "length (st :: 'a list) = 16"
  obtains a0 a1 a2 a3 a4 a5 a6 a7 a8 a9 a10 a11 a12 a13 a14 a15
  where "st = [a0, a1, a2, a3, a4, a5, a6, a7, a8, a9, a10, a11, a12, a13, a14, a15]"
  using assms by (auto simp: length_Suc_conv eval_nat_numeral)

lemma InvShiftRows_ShiftRows: "length st = 16 \<Longrightarrow> InvShiftRows (ShiftRows st) = st"
  by (erule list16) (simp add: InvShiftRows_def ShiftRows_def)

lemma xtime_xor: "xtime (a XOR b) = xtime a XOR xtime b"
  by (simp add: xtime_def bit_xor_iff ac_simps)

lemma xtime_0 [simp]: "xtime 0 = 0"
  by (simp add: xtime_def)

lemma InvMix_column:
  "mul14 (xtime a XOR (xtime b XOR b) XOR c XOR d) XOR
   mul11 (a XOR xtime b XOR (xtime c XOR c) XOR d) XOR
   mul13 (a XOR b XOR xtime c XOR (xtime d XOR d)) XOR
   mul9 ((xtime a XOR a) XOR b XOR c XOR xtime d) = a"
  "mul9 (xtime a XOR (xtime b XOR b) XOR c XOR d) XOR
   mul14 (a XOR xtime b XOR (xtime c XOR c) XOR d) XOR
   mul11 (a XOR b XOR xtime c XOR (xtime d XOR d)) XOR
   mul13 ((xtime a XOR a) XOR b XOR c XOR xtime d) = b"
  "mul13 (xtime a XOR (xtime b XOR b) XOR c XOR d) XOR
   mul9 (a XOR xtime b XOR (xtime c XOR c) XOR d) XOR
   mul14 (a XOR b XOR xtime c XOR (xtime d XOR d)) XOR
   mul11 ((xtime a XOR a) XOR b XOR c XOR xtime d) = c"
  "mul11 (xtime a XOR (xtime b XOR b) XOR c XOR d) XOR
   mul13 (a XOR xtime b XOR (xtime c XOR c) XOR d) XOR
   mul9 (a XOR b XOR xtime c XOR (xtime d XOR d)) XOR
   mul14 ((xtime a XOR a) XOR b XOR c XOR xtime d) = d"
  by (simp_all add: mul9_def mul11_def mul13_def mul14_def xtime_xor ac_simps)


lemma length_MixColumns: "length st mod 4 = 0 \<Longrightarrow> length (MixColumns st) = length st"
  by (induction st rule: MixColumns.induct) simp_all

lemma InvMixColumns_MixColumns:
  "length st mod 4 = 0 \<Longrightarrow> InvMixColumns (MixColumns st) = st"
  by (induction st rule: MixColumns.induct) (simp_all add: InvMix_column)

lemma length_AddRoundKey:
  "length st = 16 \<Longrightarrow> length rk = 16 \<Longrightarrow> length (AddRoundKey st rk) = 16"
  by (simp add: AddRoundKey_def)

lemma AddRoundKey_cancel:
  "length st = 16 \<Longrightarrow> length rk = 16 \<Longrightarrow> AddRoundKey (AddRoundKey st rk) rk = st"
  by (simp add: AddRoundKey_def xor_bytes_cancel)

lemma length_rounds:
  "length st = 16 \<Longrightarrow> \<forall>rk \<in> set rks. length rk = 16 \<Longrightarrow> length (rounds rks st) = 16"
  by (induction rks st rule: rounds.induct) (simp_all add: length_AddRoundKey length_MixColumns)

lemma inv_rounds_rounds:
  "length st = 16 \<Longrightarrow> \<forall>rk \<in> set rks. length rk = 16 \<Longrightarrow> inv_rounds rks (rounds rks st) = st"
proof (induction rks st rule: rounds.induct)
  case (1 st)
  then show ?case by simp
next
  case (2 rk st)
  then show ?case
    by (simp add: AddRoundKey_cancel InvShiftRows_ShiftRows InvSubBytes_SubBytes)
next
  case (3 rk v va st)
  let ?m = "MixColumns (ShiftRows (SubBytes st))"
  have lm: "length ?m = 16" by (simp add: length_MixColumns)
  have lk: "length rk = 16" and rest: "\<forall>k \<in> set (v # va). length k = 16"
    using 3(3) by simp_all
  have "inv_rounds (v # va) (rounds (v # va) (AddRoundKey ?m rk)) = AddRoundKey ?m rk"
    by (rule 3(1) [OF length_AddRoundKey [OF lm lk] rest])
  then show ?case
    using 3(2) lm lk
    by (simp add: AddRoundKey_cancel InvMixColumns_MixColumns InvShiftRows_ShiftRows
        InvSubBytes_SubBytes)
qed

lemma InvCipher_Cipher:
  assumes "length st = 16" and "rks \<noteq> []" and "\<forall>rk \<in> set rks. length rk = 16"
  shows "InvCipher rks (Cipher rks st) = st" and "length (Cipher rks st) = 16"
proof -
  obtain k ks where rks: "rks = k # ks" using assms(2) by (cases rks) auto
  have lk: "length k = 16" and lks: "\<forall>rk \<in> set ks. length rk = 16"
    using assms(3) rks by simp_all
  have l0: "length (AddRoundKey st k) = 16" by (rule length_AddRoundKey [OF assms(1) lk])
  show "InvCipher rks (Cipher rks st) = st"
    by (simp add: InvCipher_def Cipher_def rks inv_rounds_rounds [OF l0 lks]
        AddRoundKey_cancel [OF assms(1) lk])
  show "length (Cipher rks st) = 16"
    by (simp add: Cipher_def rks length_rounds [OF l0 lks])
qed

lemma length_expand_key: "length (expand_key n Nk w) = length w + n"
  by (induction n arbitrary: w) (simp_all add: Let_def)

lemma length_Rcon [simp]: "length (Rcon j) = 4"
  by (simp add: Rcon_def)

lemma words_expand_key:
  "0 < Nk \<Longrightarrow> Nk \<le> length w \<Longrightarrow> \<forall>x \<in> set w. length x = 4 \<Longrightarrow>
   \<forall>x \<in> set (expand_key n Nk w). length x = 4"
proof (induction n arbitrary: w)
  case 0
  then show ?case by simp
next
  case (Suc n)
  let ?i = "length w"
  have prev: "length (w ! (?i - 1)) = 4" using Suc.prems by simp
  have older: "length (w ! (?i - Nk)) = 4" using Suc.prems by simp
  let ?temp = "if ?i mod Nk = 0 then xor_bytes (SubWord (RotWord (w ! (?i - 1)))) (Rcon (?i div Nk))
               else if 6 < Nk \<and> ?i mod Nk = 4 then SubWord (w ! (?i - 1)) else w ! (?i - 1)"
  have lt: "length ?temp = 4" using prev by (simp add: SubWord_def RotWord_def)
  have new: "length (xor_bytes (w ! (?i - Nk)) ?temp) = 4" using older lt by simp
  have "\<forall>x \<in> set (expand_key n Nk (w @ [xor_bytes (w ! (?i - Nk)) ?temp])). length x = 4"
    using Suc.prems new by (intro Suc.IH) auto
  then show ?case by (simp only: expand_key.simps Let_def)
qed

lemma length_concat_words:
  "\<forall>x \<in> set w. length x = 4 \<Longrightarrow> length (concat w) = 4 * length w"
  by (induction w) simp_all

lemma round_keys_ok:
  assumes "length key = 16 \<or> length key = 24 \<or> length key = 32"
  shows "round_keys key \<noteq> []" and "\<forall>rk \<in> set (round_keys key). length rk = 16"
proof -
  let ?Nk = "length key div 4"
  let ?w0 = "map (\<lambda>i. take 4 (drop (4 * i) key)) [0..<?Nk]"
  have nk: "0 < ?Nk" "length key = 4 * ?Nk" using assms by auto
  have w0: "\<forall>x \<in> set ?w0. length x = 4" using nk by auto
  have words: "\<forall>x \<in> set (KeyExpansion key). length x = 4"
    unfolding KeyExpansion_def Let_def
    by (rule words_expand_key [OF nk(1) _ w0]) simp
  have n: "length (KeyExpansion key) = 4 * (?Nk + 7)"
    by (simp add: KeyExpansion_def Let_def length_expand_key)
  have lc: "length (concat (KeyExpansion key)) = 16 * (?Nk + 7)"
    using length_concat_words [OF words] n by simp
  show "round_keys key \<noteq> []" by (simp add: round_keys_def Let_def)
  show "\<forall>rk \<in> set (round_keys key). length rk = 16"
    using lc by (auto simp: round_keys_def Let_def)
qed

lemma AES_inv_AES:
  assumes "length key = 16 \<or> length key = 24 \<or> length key = 32"
  shows "AES_inv key (AES key x) = x"
proof -
  note rk = round_keys_ok [OF assms]
  have lx: "length (Rep_block x) = 16" by simp
  note c = InvCipher_Cipher [OF lx rk]
  show ?thesis
    by (simp add: AES_inv_def AES_def Rep_Abs_block c Rep_block_inverse)
qed

section \<open>Decryption undoes encryption\<close>

lemma cbc_blocks_step:
  "\<not> length src < 16 \<Longrightarrow>
   cbc_blocks blk iv src =
     Rep_block (blk (Abs_block (xor_bytes (take 16 src) iv)))
     @ cbc_blocks blk (Rep_block (blk (Abs_block (xor_bytes (take 16 src) iv)))) (drop 16 src)"
  by (subst cbc_blocks.simps) (simp add: Let_def)

lemma cbc_blocks_block:
  "length p mod 16 = 0 \<Longrightarrow> j < length p div 16 \<Longrightarrow>
   slice (cbc_blocks blk iv p) (16 * j) (16 * j + 16)
     = Rep_block (blk (Abs_block (xor_bytes (slice p (16 * j) (16 * j + 16))
         (if j = 0 then iv else slice (cbc_blocks blk iv p) (16 * (j - 1)) (16 * j)))))"
proof (induction j arbitrary: p iv)
  case 0
  then have ge: "\<not> length p < 16" by (cases "length p < 16") simp_all
  show ?case
    by (simp add: cbc_blocks_step [OF ge] slice_def)
next
  case (Suc j)
  then have ge: "\<not> length p < 16" by (cases "length p < 16") simp_all
  let ?c = "Rep_block (blk (Abs_block (xor_bytes (take 16 p) iv)))"
  let ?rest = "cbc_blocks blk ?c (drop 16 p)"
  have m: "length (drop 16 p) mod 16 = 0" by (rule mod16_drop [OF Suc(2) ge])
  have lt: "j < length (drop 16 p) div 16"
    using Suc(3) ge le_div_geq [of 16 "length p"] by simp
  have lr: "length ?rest = length (drop 16 p)" by (rule length_cbc_blocks [OF m])
  have ih: "slice ?rest (16 * j) (16 * j + 16)
     = Rep_block (blk (Abs_block (xor_bytes (slice (drop 16 p) (16 * j) (16 * j + 16))
         (if j = 0 then ?c else slice ?rest (16 * (j - 1)) (16 * j)))))"
    by (rule Suc.IH [OF m lt])
  have a: "slice (cbc_blocks blk iv p) (16 * Suc j) (16 * Suc j + 16)
      = slice ?rest (16 * j) (16 * j + 16)"
    by (simp add: cbc_blocks_step [OF ge] slice_def)
  have b: "slice (drop 16 p) (16 * j) (16 * j + 16) = slice p (16 * Suc j) (16 * Suc j + 16)"
    by (simp add: slice_def add.commute)
  have c: "(if j = 0 then ?c else slice ?rest (16 * (j - 1)) (16 * j))
      = slice (cbc_blocks blk iv p) (16 * (Suc j - 1)) (16 * Suc j)"
  proof (cases j)
    case 0
    then show ?thesis by (simp add: cbc_blocks_step [OF ge] slice_def)
  next
    case (Suc k)
    then show ?thesis by (simp add: cbc_blocks_step [OF ge] slice_def)
  qed
  show ?case unfolding a ih b c by simp
qed

lemma aesDecrypt_aesEncrypt:
  assumes "aesEncrypt data opt = Inr c"
  shows "aesDecrypt c opt = Some data"
proof -
  let ?key = "bytes_of_string (Key opt)"
  let ?iv = "bytes_of_string (Iv opt)"
  have key: "length (Key opt) = 16 \<or> length (Key opt) = 24 \<or> length (Key opt) = 32"
    using assms aesEncrypt_bad_key [of opt data] by auto
  then have lkey: "length ?key = 16 \<or> length ?key = 24 \<or> length ?key = 32" by simp
  have inv: "\<forall>x. AES_inv ?key (AES ?key x) = x" using AES_inv_AES [OF lkey] by simp
  consider (cbc) "ToUpper (Mode opt) = ''CBC''" | (ecb) "ToUpper (Mode opt) = ''ECB''"
    | (gcm) "ToUpper (Mode opt) = ''GCM''"
    | (other) "ToUpper (Mode opt) \<noteq> ''CBC''" "ToUpper (Mode opt) \<noteq> ''ECB''"
        "ToUpper (Mode opt) \<noteq> ''GCM''"
    by blast
  then show ?thesis
  proof cases
    case cbc
    have iv: "length (Iv opt) = 16"
      using assms aesEncrypt_CBC_bad_iv [OF key cbc, of data] by auto
    have c: "c = EncodeToString (cbc_blocks (AES ?key) ?iv (padded16 data))"
      using assms aesEncrypt_CBC [OF key cbc iv, of data] by simp
    show ?thesis
      using cbc iv
      by (simp add: aesDecrypt_def c DecodeString_EncodeToString Let_def cbc_decrypt_def
          length_cbc_blocks length_padded16_mod cbc_roundtrip [of "AES_inv ?key" "AES ?key", OF inv] pKCS7Unpadding_padded16)
  next
    case ecb
    have c: "c = EncodeToString (map_blocks (AES ?key) (padded16 data))"
      using assms aesEncrypt_ECB [OF key ecb, of data] by simp
    show ?thesis
      using ecb
      by (simp add: aesDecrypt_def c DecodeString_EncodeToString Let_def ecb_decrypt_def
          length_map_blocks length_padded16_mod map_blocks_roundtrip [of "AES_inv ?key" "AES ?key", OF inv]
          pKCS7Unpadding_padded16)
  next
    case gcm
    have nonce: "length (Iv opt) = 12"
      using assms aesEncrypt_GCM_bad_nonce [OF key gcm, of data] by auto
    obtain sealed where s: "Seal (AES ?key) ?iv data [] = Inr sealed"
      and c: "c = EncodeToString sealed"
      using assms key gcm nonce
      by (auto simp: aesEncrypt_def NewCipher_def Let_def BlockSize_def split: sum.splits)
    show ?thesis
      using gcm
      by (simp add: aesDecrypt_def c DecodeString_EncodeToString Let_def Open_Seal [OF s])
  next
    case other
    then have "aesEncrypt data opt = Inl ErrUnsupportedMode"
      using key by (simp add: aesEncrypt_def NewCipher_def Let_def)
    with assms show ?thesis by simp
  qed
qed

section \<open>Properties of the encryption\<close>

text \<open>
  C5. In CBC mode, with a key of 16, 24 or 32 bytes and an IV of 16 bytes, encryption pads
  the plaintext by PKCS7 and chains the blocks from the IV: each ciphertext block is the
  AES encryption of the padded block XORed with the previous ciphertext block, the IV
  for the first. The receiver's base64 decoding, AES-CBC decryption under the same key
  and IV and PKCS7 unpadding give back the plaintext. An IV of any other length gives an
  error.
\<close>

theorem CBC_encrypt_decrypt:
  assumes mode: "ToUpper (Mode opt) = ''CBC''"
    and key: "length (Key opt) = 16 \<or> length (Key opt) = 24 \<or> length (Key opt) = 32"
  shows "(length (Iv opt) = 16 \<longrightarrow>
           (\<exists>ct. aesEncrypt data opt = Inr (EncodeToString ct)
              \<and> DecodeString (EncodeToString ct) = Some ct
              \<and> pKCS7Padding data 16 = Inr (padded16 data)
              \<and> length ct = length (padded16 data)
              \<and> (\<forall>j < length ct div 16.
                    slice ct (16 * j) (16 * j + 16) =
                      Rep_block (AES (bytes_of_string (Key opt))
                        (Abs_block (xor_bytes (slice (padded16 data) (16 * j) (16 * j + 16))
                           (if j = 0 then bytes_of_string (Iv opt)
                            else slice ct (16 * (j - 1)) (16 * j))))))
              \<and> cbc_decrypt (AES_inv (bytes_of_string (Key opt))) (bytes_of_string (Iv opt)) ct
                    = Some data
              \<and> aesDecrypt (EncodeToString ct) opt = Some data))
       \<and> (length (Iv opt) \<noteq> 16 \<longrightarrow> aesEncrypt data opt = Inl (ErrCBCIVLength 16))"
proof (intro conjI impI)
  assume iv: "length (Iv opt) = 16"
  let ?key = "bytes_of_string (Key opt)"
  let ?iv = "bytes_of_string (Iv opt)"
  let ?ct = "cbc_blocks (AES ?key) ?iv (padded16 data)"
  have enc: "aesEncrypt data opt = Inr (EncodeToString ?ct)"
    by (rule aesEncrypt_CBC [OF key mode iv])
  have dec: "DecodeString (EncodeToString ?ct) = Some ?ct"
    by (rule DecodeString_EncodeToString)
  have pad: "pKCS7Padding data 16 = Inr (padded16 data)"
    by (rule pKCS7Padding_padded16)
  have len: "length ?ct = length (padded16 data)"
    by (rule length_cbc_blocks [OF length_padded16_mod])
  have chain: "\<forall>j < length ?ct div 16.
      slice ?ct (16 * j) (16 * j + 16) =
        Rep_block (AES ?key (Abs_block (xor_bytes (slice (padded16 data) (16 * j) (16 * j + 16))
          (if j = 0 then ?iv else slice ?ct (16 * (j - 1)) (16 * j)))))"
    unfolding len using cbc_blocks_block [OF length_padded16_mod] by blast
  have whole: "aesDecrypt (EncodeToString ?ct) opt = Some data"
    by (rule aesDecrypt_aesEncrypt [OF enc])
  then have cbc: "cbc_decrypt (AES_inv ?key) ?iv ?ct = Some data"
    using mode by (simp add: aesDecrypt_def dec Let_def)
  show "\<exists>ct. aesEncrypt data opt = Inr (EncodeToString ct)
              \<and> DecodeString (EncodeToString ct) = Some ct
              \<and> pKCS7Padding data 16 = Inr (padded16 data)
              \<and> length ct = length (padded16 data)
              \<and> (\<forall>j < length ct div 16.
                    slice ct (16 * j) (16 * j + 16) =
                      Rep_block (AES ?key
                        (Abs_block (xor_bytes (slice (padded16 data) (16 * j) (16 * j + 16))
                           (if j = 0 then ?iv else slice ct (16 * (j - 1)) (16 * j))))))
              \<and> cbc_decrypt (AES_inv ?key) ?iv ct = Some data
              \<and> aesDecrypt (EncodeToString ct) opt = Some data"
    by (intro exI [of _ ?ct] conjI) (fact enc dec pad len chain cbc whole)+
next
  assume "length (Iv opt) \<noteq> 16"
  then show "aesEncrypt data opt = Inl (ErrCBCIVLength 16)"
    by (rule aesEncrypt_CBC_bad_iv [OF key mode])
qed

theorem CBC_encrypt_decrypt_witness:
  "(\<exists>ct. aesEncrypt (bytes_of_string ''{}'') cbc_example = Inr (EncodeToString ct)
      \<and> length ct = 16
      \<and> aesDecrypt (EncodeToString ct) cbc_example = Some (bytes_of_string ''{}''))
   \<and> aesEncrypt (bytes_of_string ''{}'') (cbc_example\<lparr>Iv := ''12bytesnonce''\<rparr>)
        = Inl (ErrCBCIVLength 16)"
proof -
  have m: "ToUpper (Mode cbc_example) = ''CBC''"
    by (simp add: cbc_example_def ToUpper_def upper_char_def)
  have k: "length (Key cbc_example) = 16 \<or> length (Key cbc_example) = 24
      \<or> length (Key cbc_example) = 32"
    by (simp add: cbc_example_def)
  have i: "length (Iv cbc_example) = 16" by (simp add: cbc_example_def)
  have p: "length (padded16 (bytes_of_string ''{}'')) = 16" by (simp add: padded16_def)
  let ?short = "cbc_example\<lparr>Iv := ''12bytesnonce''\<rparr>"
  have m': "ToUpper (Mode ?short) = ''CBC''" using m by simp
  have k': "length (Key ?short) = 16 \<or> length (Key ?short) = 24 \<or> length (Key ?short) = 32"
    using k by simp
  have i': "length (Iv ?short) \<noteq> 16" by simp
  from CBC_encrypt_decrypt [OF m k, of "bytes_of_string ''{}''", THEN conjunct1, rule_format, OF i]
  have a: "\<exists>ct. aesEncrypt (bytes_of_string ''{}'') cbc_example = Inr (EncodeToString ct)
      \<and> length ct = 16
      \<and> aesDecrypt (EncodeToString ct) cbc_example = Some (bytes_of_string ''{}'')"
    unfolding p by blast
  from CBC_encrypt_decrypt [OF m' k', of "bytes_of_string ''{}''", THEN conjunct2, rule_format, OF i']
  have b: "aesEncrypt (bytes_of_string ''{}'') ?short = Inl (ErrCBCIVLength 16)" .
  from a b show ?thesis by (rule conjI)
qed

text \<open>
  C8. In ECB mode, with a key of 16, 24 or 32 bytes, encryption pads the plaintext by
  PKCS7 and encrypts each block of sixteen bytes by itself: every ciphertext block is the
  AES encryption of the padded block at the same place and of nothing else. So equal
  blocks, in one message or in two under the same key, give equal ciphertext blocks. A
  key of any other length has no ciphertext at all (\<open>aesEncrypt_bad_key\<close>).
\<close>

theorem ECB_blocks_independent:
  assumes mode: "ToUpper (Mode opt) = ''ECB''"
    and key: "length (Key opt) = 16 \<or> length (Key opt) = 24 \<or> length (Key opt) = 32"
  shows "\<exists>ct ct'. aesEncrypt data opt = Inr (EncodeToString ct)
           \<and> aesEncrypt data' opt = Inr (EncodeToString ct')
           \<and> DecodeString (EncodeToString ct) = Some ct
           \<and> DecodeString (EncodeToString ct') = Some ct'
           \<and> pKCS7Padding data 16 = Inr (padded16 data)
           \<and> length ct = length (padded16 data) \<and> length ct' = length (padded16 data')
           \<and> (\<forall>j < length ct div 16.
                 slice ct (16 * j) (16 * j + 16) =
                   Rep_block (AES (bytes_of_string (Key opt))
                     (Abs_block (slice (padded16 data) (16 * j) (16 * j + 16)))))
           \<and> (\<forall>i < length ct div 16. \<forall>j < length ct' div 16.
                 slice (padded16 data) (16 * i) (16 * i + 16)
                   = slice (padded16 data') (16 * j) (16 * j + 16)
                 \<longrightarrow> slice ct (16 * i) (16 * i + 16) = slice ct' (16 * j) (16 * j + 16))"
proof -
  let ?key = "bytes_of_string (Key opt)"
  let ?ct = "map_blocks (AES ?key) (padded16 data)"
  let ?ct' = "map_blocks (AES ?key) (padded16 data')"
  have enc: "aesEncrypt data opt = Inr (EncodeToString ?ct)"
    by (rule aesEncrypt_ECB [OF key mode])
  have enc': "aesEncrypt data' opt = Inr (EncodeToString ?ct')"
    by (rule aesEncrypt_ECB [OF key mode])
  have dec: "DecodeString (EncodeToString ?ct) = Some ?ct"
    and dec': "DecodeString (EncodeToString ?ct') = Some ?ct'"
    by (rule DecodeString_EncodeToString)+
  have pad: "pKCS7Padding data 16 = Inr (padded16 data)"
    by (rule pKCS7Padding_padded16)
  have len: "length ?ct = length (padded16 data)" and len': "length ?ct' = length (padded16 data')"
    by (rule length_map_blocks [OF length_padded16_mod])+
  have blk: "\<forall>j < length ?ct div 16.
      slice ?ct (16 * j) (16 * j + 16) =
        Rep_block (AES ?key (Abs_block (slice (padded16 data) (16 * j) (16 * j + 16))))"
    unfolding len using map_blocks_block [OF length_padded16_mod] by blast
  have blk': "\<forall>j < length ?ct' div 16.
      slice ?ct' (16 * j) (16 * j + 16) =
        Rep_block (AES ?key (Abs_block (slice (padded16 data') (16 * j) (16 * j + 16))))"
    unfolding len' using map_blocks_block [OF length_padded16_mod] by blast
  have same: "\<forall>i < length ?ct div 16. \<forall>j < length ?ct' div 16.
      slice (padded16 data) (16 * i) (16 * i + 16) = slice (padded16 data') (16 * j) (16 * j + 16)
      \<longrightarrow> slice ?ct (16 * i) (16 * i + 16) = slice ?ct' (16 * j) (16 * j + 16)"
    using blk blk' by simp
  show ?thesis
    by (intro exI [of _ ?ct] exI [of _ ?ct'] conjI)
      (fact enc enc' dec dec' pad len len' blk same)+
qed


theorem ECB_blocks_independent_witness:
  "\<exists>ct. aesEncrypt (replicate 32 7) ecb_example = Inr (EncodeToString ct)
     \<and> length ct = 48 \<and> slice ct 0 16 = slice ct 16 32"
proof -
  let ?data = "replicate 32 7 :: bytes"
  have m: "ToUpper (Mode ecb_example) = ''ECB''"
    by (simp add: ecb_example_def ToUpper_def upper_char_def)
  have k: "length (Key ecb_example) = 16 \<or> length (Key ecb_example) = 24
      \<or> length (Key ecb_example) = 32"
    by (simp add: ecb_example_def)
  have p: "padded16 ?data = replicate 32 7 @ replicate 16 16" by (simp add: padded16_def)
  have eq: "slice (padded16 ?data) (16 * 0) (16 * 0 + 16) = slice (padded16 ?data) (16 * 1) (16 * 1 + 16)"
    by (simp add: p slice_def)
  from ECB_blocks_independent [OF m k, of ?data ?data]
  obtain ct where "\<exists>ct'. aesEncrypt ?data ecb_example = Inr (EncodeToString ct)
           \<and> aesEncrypt ?data ecb_example = Inr (EncodeToString ct')
           \<and> DecodeString (EncodeToString ct) = Some ct
           \<and> DecodeString (EncodeToString ct') = Some ct'
           \<and> pKCS7Padding ?data 16 = Inr (padded16 ?data)
           \<and> length ct = length (padded16 ?data) \<and> length ct' = length (padded16 ?data)
           \<and> (\<forall>j < length ct div 16.
                 slice ct (16 * j) (16 * j + 16) =
                   Rep_block (AES (bytes_of_string (Key ecb_example))
                     (Abs_block (slice (padded16 ?data) (16 * j) (16 * j + 16)))))
           \<and> (\<forall>i < length ct div 16. \<forall>j < length ct' div 16.
                 slice (padded16 ?data) (16 * i) (16 * i + 16)
                   = slice (padded16 ?data) (16 * j) (16 * j + 16)
                 \<longrightarrow> slice ct (16 * i) (16 * i + 16) = slice ct' (16 * j) (16 * j + 16))" ..
  then obtain ct' where all: "aesEncrypt ?data ecb_example = Inr (EncodeToString ct)
           \<and> aesEncrypt ?data ecb_example = Inr (EncodeToString ct')
           \<and> DecodeString (EncodeToString ct) = Some ct
           \<and> DecodeString (EncodeToString ct') = Some ct'
           \<and> pKCS7Padding ?data 16 = Inr (padded16 ?data)
           \<and> length ct = length (padded16 ?data) \<and> length ct' = length (padded16 ?data)
           \<and> (\<forall>j < length ct div 16.
                 slice ct (16 * j) (16 * j + 16) =
                   Rep_block (AES (bytes_of_string (Key ecb_example))
                     (Abs_block (slice (padded16 ?data) (16 * j) (16 * j + 16)))))
           \<and> (\<forall>i < length ct div 16. \<forall>j < length ct' div 16.
                 slice (padded16 ?data) (16 * i) (16 * i + 16)
                   = slice (padded16 ?data) (16 * j) (16 * j + 16)
                 \<longrightarrow> slice ct (16 * i) (16 * i + 16) = slice ct' (16 * j) (16 * j + 16))" ..
  note enc = all [THEN conjunct1]
  note enc' = all [THEN conjunct2, THEN conjunct1]
  note dec = all [THEN conjunct2, THEN conjunct2, THEN conjunct1]
  note dec' = all [THEN conjunct2, THEN conjunct2, THEN conjunct2, THEN conjunct1]
  note len = all [THEN conjunct2, THEN conjunct2, THEN conjunct2, THEN conjunct2, THEN conjunct2,
      THEN conjunct1]
  note same = all [THEN conjunct2, THEN conjunct2, THEN conjunct2, THEN conjunct2, THEN conjunct2,
      THEN conjunct2, THEN conjunct2, THEN conjunct2]
  have "Inr (EncodeToString ct) = (Inr (EncodeToString ct') :: error + string)"
    by (rule trans [OF enc [symmetric] enc'])
  then have "EncodeToString ct = EncodeToString ct'" by (simp only: sum.inject)
  with dec dec' have ct: "ct' = ct" by (metis option.inject)
  have l48: "length ct = 48" using len by (simp add: p)
  have "slice ct (16 * 0) (16 * 0 + 16) = slice ct' (16 * 1) (16 * 1 + 16)"
    using same [rule_format, of 0 1] eq l48 by (simp add: ct)
  then have "slice ct 0 16 = slice ct 16 32" by (simp add: ct)
  with enc l48 show ?thesis by (intro exI [of _ ct] conjI)
qed

text \<open>
  GCM. With a key of 16, 24 or 32 bytes and a nonce of 12 bytes the output is the base64
  of the ciphertext, as long as the plaintext and not padded, followed by the tag of 16
  bytes, computed with no associated data; \<open>Open\<close> under the same key and nonce gives the
  plaintext back, and it rejects the output with any other tag. A nonce of another length
  is an error. That \<open>Open\<close> rejects every change of the ciphertext part is not proved: it
  needs the hash key, the encryption of the zero block, to be non-zero.
\<close>

lemma GCM_seal_open:
  assumes mode: "ToUpper (Mode opt) = ''GCM''"
    and key: "length (Key opt) = 16 \<or> length (Key opt) = 24 \<or> length (Key opt) = 32"
  shows "(length (Iv opt) = 12 \<and> length data \<le> (2 ^ 32 - 2) * 16 \<longrightarrow>
           (\<exists>ct tag. aesEncrypt data opt = Inr (EncodeToString (ct @ tag))
              \<and> DecodeString (EncodeToString (ct @ tag)) = Some (ct @ tag)
              \<and> length ct = length data \<and> length tag = 16
              \<and> ct = gctr (AES (bytes_of_string (Key opt))) (bytes_of_string (Iv opt)) 2 data
              \<and> tag = gcm_tag (AES (bytes_of_string (Key opt))) (bytes_of_string (Iv opt)) [] ct
              \<and> Open (AES (bytes_of_string (Key opt))) (bytes_of_string (Iv opt)) (ct @ tag) []
                    = Some data
              \<and> (\<forall>tag'. length tag' = 16 \<and> tag' \<noteq> tag \<longrightarrow>
                    Open (AES (bytes_of_string (Key opt))) (bytes_of_string (Iv opt))
                      (ct @ tag') [] = None)))
       \<and> (length (Iv opt) \<noteq> 12 \<longrightarrow> aesEncrypt data opt = Inl ErrGCMNonceLength)"
proof (intro conjI impI)
  assume a: "length (Iv opt) = 12 \<and> length data \<le> (2 ^ 32 - 2) * 16"
  let ?blk = "AES (bytes_of_string (Key opt))"
  let ?nonce = "bytes_of_string (Iv opt)"
  let ?ct = "gctr ?blk ?nonce 2 data"
  let ?tag = "gcm_tag ?blk ?nonce [] ?ct"
  have enc: "aesEncrypt data opt = Inr (EncodeToString (?ct @ ?tag))"
    using a by (intro aesEncrypt_GCM [OF key mode]) simp_all
  have dec: "DecodeString (EncodeToString (?ct @ ?tag)) = Some (?ct @ ?tag)"
    by (rule DecodeString_EncodeToString)
  have len: "length ?ct = length data" by (rule length_gctr)
  have lt: "length ?tag = 16" by simp
  have seal: "Seal ?blk ?nonce data [] = Inr (?ct @ ?tag)"
    using a by (simp add: Seal_def Let_def)
  have op: "Open ?blk ?nonce (?ct @ ?tag) [] = Some data" by (rule Open_Seal [OF seal])
  have bad: "\<forall>tag'. length tag' = 16 \<and> tag' \<noteq> ?tag \<longrightarrow> Open ?blk ?nonce (?ct @ tag') [] = None"
    by (simp add: Open_wrong_tag)
  show "\<exists>ct tag. aesEncrypt data opt = Inr (EncodeToString (ct @ tag))
              \<and> DecodeString (EncodeToString (ct @ tag)) = Some (ct @ tag)
              \<and> length ct = length data \<and> length tag = 16
              \<and> ct = gctr ?blk ?nonce 2 data
              \<and> tag = gcm_tag ?blk ?nonce [] ct
              \<and> Open ?blk ?nonce (ct @ tag) [] = Some data
              \<and> (\<forall>tag'. length tag' = 16 \<and> tag' \<noteq> tag \<longrightarrow>
                    Open ?blk ?nonce (ct @ tag') [] = None)"
    by (intro exI [of _ ?ct] exI [of _ ?tag] conjI) (fact enc dec len lt refl op bad)+
next
  assume "length (Iv opt) \<noteq> 12"
  then show "aesEncrypt data opt = Inl ErrGCMNonceLength"
    by (rule aesEncrypt_GCM_bad_nonce [OF key mode])
qed

lemma GCM_seal_open_example:
  "\<exists>ct tag. aesEncrypt (bytes_of_string ''{}'') gcm_example = Inr (EncodeToString (ct @ tag))
     \<and> length ct = 2 \<and> length tag = 16
     \<and> aesDecrypt (EncodeToString (ct @ tag)) gcm_example = Some (bytes_of_string ''{}'')"
proof -
  have m: "ToUpper (Mode gcm_example) = ''GCM''"
    by (simp add: gcm_example_def ToUpper_def upper_char_def)
  have k: "length (Key gcm_example) = 16 \<or> length (Key gcm_example) = 24
      \<or> length (Key gcm_example) = 32"
    by (simp add: gcm_example_def)
  have n: "length (Iv gcm_example) = 12 \<and> length (bytes_of_string ''{}'') \<le> (2 ^ 32 - 2) * 16"
    by (simp add: gcm_example_def)
  from GCM_seal_open [OF m k, of "bytes_of_string ''{}''", THEN conjunct1, rule_format, OF n]
  obtain ct tag where e: "aesEncrypt (bytes_of_string ''{}'') gcm_example = Inr (EncodeToString (ct @ tag))"
    and l: "length ct = length (bytes_of_string ''{}'')" and t: "length tag = 16"
    by (elim exE conjE)
  have "aesDecrypt (EncodeToString (ct @ tag)) gcm_example = Some (bytes_of_string ''{}'')"
    by (rule aesDecrypt_aesEncrypt [OF e])
  with e l t show ?thesis by (intro exI [of _ ct] exI [of _ tag] conjI) simp_all
qed

section \<open>Properties of the payload preparation\<close>

lemma encryptedPayload_eq:
  "encryptedPayload c k ks =
     (if ks \<noteq> [] \<and> k = [] then Inl ErrMissingRoutingKey
      else Inr [(''ciphertext'', JString c), (''device_key'', JString k)])"
  by (simp add: encryptedPayload_def make_strings_def copy_strings_def map_set_def Let_def)

lemma preparePayload_encrypted:
  "Enc opts = Some enc \<Longrightarrow>
   preparePayload quote opts =
     (case aesEncrypt (plainBytes quote opts) enc of
        Inl err \<Rightarrow> Inl err
      | Inr c \<Rightarrow>
          if DeviceKeys opts \<noteq> [] \<and> DeviceKey opts = [] then Inl ErrMissingRoutingKey
          else Inr (Marshal_map quote
                 [(''ciphertext'', JString c), (''device_key'', JString (DeviceKey opts))]))"
  by (simp add: preparePayload_def encryptedPayload_eq split: sum.splits)

lemma cbc_example_facts:
  "ToUpper (Mode cbc_example) = ''CBC''"
  "length (Key cbc_example) = 16 \<or> length (Key cbc_example) = 24 \<or> length (Key cbc_example) = 32"
  "length (Iv cbc_example) = 16"
  by (simp_all add: cbc_example_def ToUpper_def upper_char_def)


text \<open>
  C1. When a request with encryption has both a device key and a non-empty list of device
  keys, the envelope does not merge them: \<open>copy\<close> into the slice of length zero copies
  nothing, the list is lost, and the envelope carries the single \<open>device_key\<close> alone. For
  \<open>device_key\<close> "a" with \<open>device_keys\<close> ["a","b","c"] it is \<open>device_key\<close> "a" and no
  \<open>device_keys\<close>.
\<close>

theorem both_keys_envelope_has_single_key:
  "Enc opts = Some enc \<and> DeviceKey opts \<noteq> [] \<and> DeviceKeys opts \<noteq> [] \<and>
   aesEncrypt (plainBytes quote opts) enc = Inr c \<longrightarrow>
     encryptedPayload c (DeviceKey opts) (DeviceKeys opts)
       = Inr [(''ciphertext'', JString c), (''device_key'', JString (DeviceKey opts))]
     \<and> preparePayload quote opts =
         Inr (Marshal_map quote
           [(''ciphertext'', JString c), (''device_key'', JString (DeviceKey opts))])"
  by (simp add: preparePayload_encrypted encryptedPayload_eq)

theorem both_keys_envelope_has_single_key_witness:
  "\<exists>c. aesEncrypt (plainBytes quote_plain scenario_C) cbc_example = Inr c
     \<and> encryptedPayload c ''a'' [''a'', ''b'', ''c'']
         = Inr [(''ciphertext'', JString c), (''device_key'', JString ''a'')]
     \<and> preparePayload quote_plain scenario_C =
         Inr (Marshal_map quote_plain [(''ciphertext'', JString c), (''device_key'', JString ''a'')])"
proof -
  let ?c = "EncodeToString (cbc_blocks (AES (bytes_of_string (Key cbc_example)))
     (bytes_of_string (Iv cbc_example)) (padded16 (plainBytes quote_plain scenario_C)))"
  have enc: "aesEncrypt (plainBytes quote_plain scenario_C) cbc_example = Inr ?c"
    by (rule aesEncrypt_CBC [OF cbc_example_facts(2) cbc_example_facts(1) cbc_example_facts(3)])
  have h: "Enc scenario_C = Some cbc_example \<and> DeviceKey scenario_C \<noteq> [] \<and>
      DeviceKeys scenario_C \<noteq> [] \<and>
      aesEncrypt (plainBytes quote_plain scenario_C) cbc_example = Inr ?c"
    using enc by (simp add: scenario_C_def)
  from both_keys_envelope_has_single_key [of scenario_C cbc_example quote_plain ?c, rule_format, OF h]
  have "encryptedPayload ?c ''a'' [''a'', ''b'', ''c'']
         = Inr [(''ciphertext'', JString ?c), (''device_key'', JString ''a'')]
     \<and> preparePayload quote_plain scenario_C =
         Inr (Marshal_map quote_plain [(''ciphertext'', JString ?c), (''device_key'', JString ''a'')])"
    by (simp add: scenario_C_def)
  with enc show ?thesis by (intro exI [of _ ?c] conjI) simp_all
qed




lemma plainBytes_scenario_D:
  \<open>plainBytes quote_plain scenario_D = bytes_of_string ''{"title":"T","body":"B"}''\<close>
  by (simp add: plainBytes_def encOpts_def scenario_D_def zero_Options_def Marshal_Options_def
      Options_members_def string_member_def strings_member_def int_member_def quote_plain_def)

lemma Marshal_scenario_A:
  \<open>preparePayload quote_plain (zero_Options\<lparr>DeviceKey := ''abc'', Title := ''T'', Body := ''B''\<rparr>)
     = Inr (bytes_of_string ''{"device_key":"abc","title":"T","body":"B"}'')\<close>
  by (simp add: preparePayload_def zero_Options_def Marshal_Options_def
      Options_members_def string_member_def strings_member_def int_member_def quote_plain_def)

lemma Marshal_map_example:
  \<open>Marshal_map quote_plain [(''device_key'', JString ''abc''), (''ciphertext'', JString ''QUJD'')]
     = bytes_of_string ''{"ciphertext":"QUJD","device_key":"abc"}''\<close>
  by (simp add: Marshal_map_def sort_members_def quote_plain_def)

text \<open>
  C2, as the code has it. A request whose device key and list of device keys are both
  empty is rejected by the validation that \<open>Push\<close> runs first, with the error "device_key
  is required", and nothing is assembled. Every envelope that \<open>Push\<close> assembles for a
  request with encryption carries a non-empty \<open>device_key\<close> or a non-empty \<open>device_keys\<close>.
\<close>

theorem pushed_envelope_is_routable:
  "(DeviceKey opts = [] \<and> DeviceKeys opts = [] \<longrightarrow> Push_body quote opts = Inl ErrDeviceKeyRequired)
   \<and> (Enc opts = Some enc \<and> Push_body quote opts = Inr body \<longrightarrow>
        (\<exists>c payload. aesEncrypt (plainBytes quote opts) enc = Inr c
           \<and> encryptedPayload c (DeviceKey opts) (DeviceKeys opts) = Inr payload
           \<and> body = Marshal_map quote payload
           \<and> ((\<exists>k. k \<noteq> [] \<and> map_of payload ''device_key'' = Some (JString k))
              \<or> (\<exists>ks. ks \<noteq> [] \<and> map_of payload ''device_keys'' = Some (JArray (map JString ks))))))"
proof (intro conjI impI)
  assume "DeviceKey opts = [] \<and> DeviceKeys opts = []"
  then show "Push_body quote opts = Inl ErrDeviceKeyRequired"
    by (simp add: Push_body_def Validate_def)
next
  assume a: "Enc opts = Some enc \<and> Push_body quote opts = Inr body"
  then have enc: "Enc opts = Some enc" and push: "Push_body quote opts = Inr body" by simp_all
  from push have v: "Validate opts = None" and pp: "preparePayload quote opts = Inr body"
    by (simp_all add: Push_body_def split: option.splits)
  from v have some: "DeviceKey opts \<noteq> [] \<or> DeviceKeys opts \<noteq> []"
    by (auto simp: Validate_def split: if_splits)
  from pp obtain c where c: "aesEncrypt (plainBytes quote opts) enc = Inr c"
    and ok: "\<not> (DeviceKeys opts \<noteq> [] \<and> DeviceKey opts = [])"
    and body: "body = Marshal_map quote
        [(''ciphertext'', JString c), (''device_key'', JString (DeviceKey opts))]"
    by (auto simp: preparePayload_encrypted [OF enc] split: sum.splits if_splits)
  from some ok have k: "DeviceKey opts \<noteq> []" by blast
  let ?payload = "[(''ciphertext'', JString c), (''device_key'', JString (DeviceKey opts))]"
  have ep: "encryptedPayload c (DeviceKey opts) (DeviceKeys opts) = Inr ?payload"
    using ok by (simp add: encryptedPayload_eq)
  have r: "(\<exists>k. k \<noteq> [] \<and> map_of ?payload ''device_key'' = Some (JString k))
      \<or> (\<exists>ks. ks \<noteq> [] \<and> map_of ?payload ''device_keys'' = Some (JArray (map JString ks)))"
    using k by simp
  show "\<exists>c payload. aesEncrypt (plainBytes quote opts) enc = Inr c
           \<and> encryptedPayload c (DeviceKey opts) (DeviceKeys opts) = Inr payload
           \<and> body = Marshal_map quote payload
           \<and> ((\<exists>k. k \<noteq> [] \<and> map_of payload ''device_key'' = Some (JString k))
              \<or> (\<exists>ks. ks \<noteq> [] \<and> map_of payload ''device_keys'' = Some (JArray (map JString ks))))"
    by (intro exI [of _ c] exI [of _ ?payload] conjI) (fact c ep body r)+
qed

lemma preparePayload_scenario_B:
  "preparePayload quote_plain scenario_B =
     Inr (Marshal_map quote_plain
       [(''ciphertext'', JString (EncodeToString (cbc_blocks (AES (bytes_of_string ''1234567890abcdef''))
           (bytes_of_string ''1111111111111111'') (padded16 (plainBytes quote_plain scenario_B))))),
        (''device_key'', JString ''abc'')])"
proof -
  have e: "Enc scenario_B = Some cbc_example" by (simp add: scenario_B_def)
  have enc: "aesEncrypt (plainBytes quote_plain scenario_B) cbc_example =
      Inr (EncodeToString (cbc_blocks (AES (bytes_of_string (Key cbc_example)))
        (bytes_of_string (Iv cbc_example)) (padded16 (plainBytes quote_plain scenario_B))))"
    by (rule aesEncrypt_CBC [OF cbc_example_facts(2) cbc_example_facts(1) cbc_example_facts(3)])
  show ?thesis
    unfolding preparePayload_encrypted [OF e] enc
    by (simp add: scenario_B_def cbc_example_def)
qed

theorem pushed_envelope_is_routable_witness:
  "Push_body quote_plain scenario_D = Inl ErrDeviceKeyRequired \<and>
   (\<exists>c payload. Push_body quote_plain scenario_B = Inr (Marshal_map quote_plain payload)
      \<and> encryptedPayload c ''abc'' [] = Inr payload
      \<and> ((\<exists>k. k \<noteq> [] \<and> map_of payload ''device_key'' = Some (JString k))
         \<or> (\<exists>ks. ks \<noteq> [] \<and> map_of payload ''device_keys'' = Some (JArray (map JString ks)))))"
proof -
  let ?c = "EncodeToString (cbc_blocks (AES (bytes_of_string ''1234567890abcdef''))
           (bytes_of_string ''1111111111111111'') (padded16 (plainBytes quote_plain scenario_B)))"
  let ?body = "Marshal_map quote_plain [(''ciphertext'', JString ?c), (''device_key'', JString ''abc'')]"
  have d: "DeviceKey scenario_D = [] \<and> DeviceKeys scenario_D = []"
    by (simp add: scenario_D_def zero_Options_def)
  have v: "Validate scenario_B = None"
    by (simp add: Validate_def scenario_B_def zero_Options_def cbc_example_def ToUpper_def
        upper_char_def EncModeCBC_def Let_def)
  have b: "Enc scenario_B = Some cbc_example \<and> Push_body quote_plain scenario_B = Inr ?body"
    by (simp add: Push_body_def v preparePayload_scenario_B) (simp add: scenario_B_def)
  note t = pushed_envelope_is_routable [of scenario_D quote_plain cbc_example ?body]
  note u = pushed_envelope_is_routable [of scenario_B quote_plain cbc_example ?body]
  have first: "Push_body quote_plain scenario_D = Inl ErrDeviceKeyRequired"
    by (rule t [THEN conjunct1, rule_format, OF d])
  from u [THEN conjunct2, rule_format, OF b]
  obtain c payload where "encryptedPayload c (DeviceKey scenario_B) (DeviceKeys scenario_B) = Inr payload"
    and "?body = Marshal_map quote_plain payload"
    and "(\<exists>k. k \<noteq> [] \<and> map_of payload ''device_key'' = Some (JString k))
         \<or> (\<exists>ks. ks \<noteq> [] \<and> map_of payload ''device_keys'' = Some (JArray (map JString ks)))"
    by (elim exE conjE)
  then have "Push_body quote_plain scenario_B = Inr (Marshal_map quote_plain payload)
      \<and> encryptedPayload c ''abc'' [] = Inr payload
      \<and> ((\<exists>k. k \<noteq> [] \<and> map_of payload ''device_key'' = Some (JString k))
         \<or> (\<exists>ks. ks \<noteq> [] \<and> map_of payload ''device_keys'' = Some (JArray (map JString ks))))"
    using b by (simp add: scenario_B_def zero_Options_def)
  then have "\<exists>c payload. Push_body quote_plain scenario_B = Inr (Marshal_map quote_plain payload)
      \<and> encryptedPayload c ''abc'' [] = Inr payload
      \<and> ((\<exists>k. k \<noteq> [] \<and> map_of payload ''device_key'' = Some (JString k))
         \<or> (\<exists>ks. ks \<noteq> [] \<and> map_of payload ''device_keys'' = Some (JArray (map JString ks))))"
    by (intro exI [of _ c] exI [of _ payload])
  with first show ?thesis by (rule conjI)
qed

theorem both_empty_envelope_is_emitted:
  "preparePayload quote_plain scenario_D =
     Inr (Marshal_map quote_plain
       [(''ciphertext'', JString (EncodeToString (cbc_blocks (AES (bytes_of_string ''1234567890abcdef''))
           (bytes_of_string ''1111111111111111'') (padded16 (plainBytes quote_plain scenario_D))))),
        (''device_key'', JString [])])
   \<and> preparePayload quote_plain scenario_D \<noteq> Inl ErrMissingRoutingKey
   \<and> DeviceKey scenario_D = [] \<and> DeviceKeys scenario_D = []
   \<and> Enc scenario_D = Some cbc_example"
proof -
  have e: "Enc scenario_D = Some cbc_example" by (simp add: scenario_D_def)
  have enc: "aesEncrypt (plainBytes quote_plain scenario_D) cbc_example =
      Inr (EncodeToString (cbc_blocks (AES (bytes_of_string (Key cbc_example)))
        (bytes_of_string (Iv cbc_example)) (padded16 (plainBytes quote_plain scenario_D))))"
    by (rule aesEncrypt_CBC [OF cbc_example_facts(2) cbc_example_facts(1) cbc_example_facts(3)])
  show ?thesis
    unfolding preparePayload_encrypted [OF e] enc
    by (simp add: scenario_D_def cbc_example_def zero_Options_def)
qed

lemma filter_string_member:
  "filter P (string_member name v) = (if P (name, JString v) then string_member name v else [])"
  by (simp add: string_member_def)

lemma filter_strings_member:
  "filter P (strings_member name vs)
     = (if P (name, JArray (map JString vs)) then strings_member name vs else [])"
  by (simp add: strings_member_def)

lemma filter_int_member:
  "filter (\<lambda>kv. fst kv \<noteq> a \<and> fst kv \<noteq> b) (int_member name p)
     = (if name \<noteq> a \<and> name \<noteq> b then int_member name p else [])"
  by (simp add: int_member_def split: option.splits)

lemma content_members:
  "Options_members (encOpts opts)
     = filter (\<lambda>kv. fst kv \<noteq> ''device_key'' \<and> fst kv \<noteq> ''device_keys'') (Options_members opts)"
  by (simp add: Options_members_def encOpts_def filter_string_member filter_strings_member
      filter_int_member)
    (simp add: string_member_def strings_member_def)

lemma no_routing_members:
  "''device_key'' \<notin> fst ` set (Options_members (encOpts opts))"
  "''device_keys'' \<notin> fst ` set (Options_members (encOpts opts))"
  unfolding content_members by auto

lemma Options_members_Enc: "Options_members (opts\<lparr>Enc := e\<rparr>) = Options_members opts"
  by (simp add: Options_members_def)

lemma plainBytes_ignores_routing:
  "plainBytes quote (opts\<lparr>DeviceKey := k, DeviceKeys := ks, Enc := e\<rparr>) = plainBytes quote opts"
  by (simp add: plainBytes_def encOpts_def)

text \<open>
  C3. For a request with encryption, the plaintext handed to the cipher is the JSON of the
  copy of the request: its members are the members of the request other than
  \<open>device_key\<close> and \<open>device_keys\<close>, the encryption options are never a member, and the
  plaintext is the same for two requests that differ only in the device keys (or in the
  encryption options). The ciphertext in the envelope is the encryption of this plaintext,
  and the receiver's decryption of it yields this plaintext again.
\<close>

theorem plaintext_has_no_routing_keys:
  "''device_key'' \<notin> fst ` set (Options_members (encOpts opts))
   \<and> ''device_keys'' \<notin> fst ` set (Options_members (encOpts opts))
   \<and> Options_members (encOpts opts)
       = filter (\<lambda>kv. fst kv \<noteq> ''device_key'' \<and> fst kv \<noteq> ''device_keys'') (Options_members opts)
   \<and> plainBytes quote opts = bytes_of_string (render quote (JObject (Options_members (encOpts opts))))
   \<and> Options_members (opts\<lparr>Enc := e\<rparr>) = Options_members opts
   \<and> plainBytes quote (opts\<lparr>DeviceKey := k, DeviceKeys := ks, Enc := e\<rparr>) = plainBytes quote opts
   \<and> (Enc opts = Some enc \<and> preparePayload quote opts = Inr body \<longrightarrow>
        (\<exists>c payload. aesEncrypt (plainBytes quote opts) enc = Inr c
           \<and> encryptedPayload c (DeviceKey opts) (DeviceKeys opts) = Inr payload
           \<and> body = Marshal_map quote payload
           \<and> map_of payload ''ciphertext'' = Some (JString c)
           \<and> aesDecrypt c enc = Some (plainBytes quote opts)))"
proof -
  have m1: "''device_key'' \<notin> fst ` set (Options_members (encOpts opts))"
    and m2: "''device_keys'' \<notin> fst ` set (Options_members (encOpts opts))"
    by (rule no_routing_members)+
  have m3: "Options_members (encOpts opts)
       = filter (\<lambda>kv. fst kv \<noteq> ''device_key'' \<and> fst kv \<noteq> ''device_keys'') (Options_members opts)"
    by (rule content_members)
  have m4: "plainBytes quote opts
      = bytes_of_string (render quote (JObject (Options_members (encOpts opts))))"
    by (simp only: plainBytes_def Marshal_Options_def)
  have m5: "Options_members (opts\<lparr>Enc := e\<rparr>) = Options_members opts"
    by (rule Options_members_Enc)
  have m6: "plainBytes quote (opts\<lparr>DeviceKey := k, DeviceKeys := ks, Enc := e\<rparr>)
      = plainBytes quote opts"
    by (rule plainBytes_ignores_routing)
  have m7: "Enc opts = Some enc \<and> preparePayload quote opts = Inr body \<longrightarrow>
        (\<exists>c payload. aesEncrypt (plainBytes quote opts) enc = Inr c
           \<and> encryptedPayload c (DeviceKey opts) (DeviceKeys opts) = Inr payload
           \<and> body = Marshal_map quote payload
           \<and> map_of payload ''ciphertext'' = Some (JString c)
           \<and> aesDecrypt c enc = Some (plainBytes quote opts))"
  proof
  assume a: "Enc opts = Some enc \<and> preparePayload quote opts = Inr body"
  then have enc: "Enc opts = Some enc" and pp: "preparePayload quote opts = Inr body" by simp_all
  from pp obtain c where c: "aesEncrypt (plainBytes quote opts) enc = Inr c"
    and ok: "\<not> (DeviceKeys opts \<noteq> [] \<and> DeviceKey opts = [])"
    and body: "body = Marshal_map quote
        [(''ciphertext'', JString c), (''device_key'', JString (DeviceKey opts))]"
    by (auto simp: preparePayload_encrypted [OF enc] split: sum.splits if_splits)
  let ?payload = "[(''ciphertext'', JString c), (''device_key'', JString (DeviceKey opts))]"
  have ep: "encryptedPayload c (DeviceKey opts) (DeviceKeys opts) = Inr ?payload"
    using ok by (simp add: encryptedPayload_eq)
  have ct: "map_of ?payload ''ciphertext'' = Some (JString c)" by simp
  have dec: "aesDecrypt c enc = Some (plainBytes quote opts)"
    by (rule aesDecrypt_aesEncrypt [OF c])
  show "\<exists>c payload. aesEncrypt (plainBytes quote opts) enc = Inr c
           \<and> encryptedPayload c (DeviceKey opts) (DeviceKeys opts) = Inr payload
           \<and> body = Marshal_map quote payload
           \<and> map_of payload ''ciphertext'' = Some (JString c)
           \<and> aesDecrypt c enc = Some (plainBytes quote opts)"
    by (intro exI [of _ c] exI [of _ ?payload] conjI) (fact c ep body ct dec)+
  qed
  show ?thesis by (intro conjI) (fact m1 m2 m3 m4 m5 m6 m7)+
qed

lemma plainBytes_scenario_B:
  \<open>plainBytes quote_plain scenario_B = bytes_of_string ''{"title":"T","body":"B"}''\<close>
  by (simp add: plainBytes_def encOpts_def scenario_B_def zero_Options_def Marshal_Options_def
      Options_members_def string_member_def strings_member_def int_member_def quote_plain_def)

theorem plaintext_has_no_routing_keys_witness:
  \<open>\<exists>c. preparePayload quote_plain scenario_B =
          Inr (Marshal_map quote_plain [(''ciphertext'', JString c), (''device_key'', JString ''abc'')])
     \<and> aesDecrypt c cbc_example = Some (bytes_of_string ''{"title":"T","body":"B"}'')\<close>
proof -
  let ?c = "EncodeToString (cbc_blocks (AES (bytes_of_string ''1234567890abcdef''))
           (bytes_of_string ''1111111111111111'') (padded16 (plainBytes quote_plain scenario_B)))"
  let ?body = "Marshal_map quote_plain [(''ciphertext'', JString ?c), (''device_key'', JString ''abc'')]"
  have h: "Enc scenario_B = Some cbc_example \<and> preparePayload quote_plain scenario_B = Inr ?body"
    by (simp add: preparePayload_scenario_B) (simp add: scenario_B_def)
  have enc: "aesEncrypt (plainBytes quote_plain scenario_B) cbc_example = Inr ?c"
    using aesEncrypt_CBC [OF cbc_example_facts(2) cbc_example_facts(1) cbc_example_facts(3),
        of "plainBytes quote_plain scenario_B"]
    by (simp add: cbc_example_def)
  note t = plaintext_has_no_routing_keys [of scenario_B quote_plain None "[]" "[]" cbc_example ?body]
  from t [THEN conjunct2, THEN conjunct2, THEN conjunct2, THEN conjunct2, THEN conjunct2,
      THEN conjunct2, rule_format, OF h]
  obtain c where c: "aesEncrypt (plainBytes quote_plain scenario_B) cbc_example = Inr c"
    and d: "aesDecrypt c cbc_example = Some (plainBytes quote_plain scenario_B)"
    by (elim exE conjE)
  from c enc have "c = ?c" by simp
  then have "preparePayload quote_plain scenario_B =
          Inr (Marshal_map quote_plain [(''ciphertext'', JString c), (''device_key'', JString ''abc'')])"
    using h by simp
  then show ?thesis using d unfolding plainBytes_scenario_B by (intro exI [of _ c] conjI)
qed

section \<open>Properties of the memory model\<close>

lemma snd_Validate_mem: "snd (Validate_mem p st) = st"
  by (simp add: Validate_mem_def Let_def split: option.splits)

lemma length_slice_elems:
  "wf_Options st ov \<Longrightarrow> length (slice_elems st (DeviceKeys ov)) = sl_len (DeviceKeys ov)"
  by (auto simp: wf_Options_def slice_elems_def split: option.splits)

lemma fst_Validate_mem:
  "options st p = Some ov \<Longrightarrow> wf_Options st ov \<Longrightarrow>
   fst (Validate_mem p st) = Validate (Options_value st ov)"
  using length_slice_elems [of st ov]
  by (auto simp: Validate_mem_def Validate_def Options_value_def wf_Options_def Let_def
      split: option.splits)


lemma fresh_not_in_dom: "wf_store st \<Longrightarrow> next_addr st \<notin> dom (arrays st)"
  by (auto simp: wf_store_def)

lemma encryptedPayload_mem_eq:
  "encryptedPayload_mem c k ks st =
     (if 0 < sl_len ks then
        (if k \<noteq> [] then
           (Inr [(''ciphertext'', JString c), (''device_key'', JString k)],
            st\<lparr>arrays := (arrays st)(next_addr st \<mapsto> (replicate (sl_len ks + 1) [])[0 := k]),
               next_addr := Suc (next_addr st)\<rparr>)
         else
           (Inl ErrMissingRoutingKey,
            st\<lparr>arrays := (arrays st)(next_addr st \<mapsto> replicate (sl_len ks + 1) []),
               next_addr := Suc (next_addr st)\<rparr>))
      else (Inr [(''ciphertext'', JString c), (''device_key'', JString k)], st))"
  by (simp add: encryptedPayload_mem_def make_slice_def copy_slice_def append_slice_def
      write_array_def slice_elems_def map_set_def Let_def)

lemma encryptedPayload_mem_unchanged:
  "wf_store st \<Longrightarrow> unchanged st (snd (encryptedPayload_mem c k ks st))"
  using fresh_not_in_dom [of st]
  by (auto simp: encryptedPayload_mem_eq unchanged_def)

lemma encryptedPayload_mem_result:
  "length (slice_elems st ks) = sl_len ks \<Longrightarrow>
   fst (encryptedPayload_mem c k ks st) = encryptedPayload c k (slice_elems st ks)"
  by (auto simp: encryptedPayload_mem_eq encryptedPayload_eq)

lemma Options_value_local:
  "Options_value st (ov\<lparr>DeviceKey := [], DeviceKeys := nil_slice, Enc := None\<rparr>)
     = encOpts (Options_value st ov)"
  by (simp add: Options_value_def encOpts_def slice_elems_def nil_slice_def)

lemma preparePayload_mem_unchanged:
  "wf_store st \<Longrightarrow> unchanged st (snd (preparePayload_mem quote p st))"
proof -
  assume wf: "wf_store st"
  have same: "unchanged st st" by (simp add: unchanged_def)
  show ?thesis
    using same encryptedPayload_mem_unchanged [OF wf]
    by (auto simp: preparePayload_mem_def Let_def split: option.splits sum.splits prod.splits)
      (metis snd_conv)+
qed

lemma preparePayload_mem_result:
  "options st p = Some ov \<Longrightarrow> wf_Options st ov \<Longrightarrow>
   fst (preparePayload_mem quote p st) = preparePayload quote (Options_value st ov)"
proof -
  assume ov: "options st p = Some ov" and wf: "wf_Options st ov"
  note len = length_slice_elems [OF wf]
  show ?thesis
  proof (cases "Enc ov")
    case None
    then show ?thesis
      by (simp add: preparePayload_mem_def ov preparePayload_def Options_value_def)
  next
    case (Some q)
    with wf obtain enc where enc: "encopts st q = Some enc"
      by (auto simp: wf_Options_def)
    have e: "Enc (Options_value st ov) = Some enc" by (simp add: Options_value_def Some enc)
    have k: "DeviceKey (Options_value st ov) = DeviceKey ov"
      and ks: "DeviceKeys (Options_value st ov) = slice_elems st (DeviceKeys ov)"
      by (simp_all add: Options_value_def)
    show ?thesis
      by (simp add: preparePayload_mem_def ov Some enc preparePayload_def e k ks Let_def
          Options_value_local plainBytes_def case_prod_unfold
          encryptedPayload_mem_result [OF len] split: sum.splits)
  qed
qed

text \<open>
  C10. Neither validation nor payload preparation changes the caller's request. Over a
  well-formed store, \<open>Validate\<close> leaves the store as it is, and after \<open>preparePayload\<close> the
  structs and every array that existed before are as they were, whether it returns a
  payload or an error: the routing keys and \<open>Enc\<close> are cleared on a local copy only, and
  the only writes go to the new array of \<open>finalRoutingKeys\<close>. The value of the caller's
  \<open>Options\<close>, its device keys and its \<open>EncOpt\<close> included, is the same after the call, and
  the results are those of the functions on that value.
\<close>

theorem caller_memory_unchanged:
  "wf_store st \<longrightarrow>
     snd (Validate_mem p st) = st
     \<and> unchanged st (snd (preparePayload_mem quote p st))
     \<and> (\<forall>ov. options st p = Some ov \<and> wf_Options st ov \<longrightarrow>
           fst (Validate_mem p st) = Validate (Options_value st ov)
           \<and> fst (preparePayload_mem quote p st) = preparePayload quote (Options_value st ov)
           \<and> options (snd (preparePayload_mem quote p st)) p = Some ov
           \<and> Options_value (snd (preparePayload_mem quote p st)) ov = Options_value st ov)"
proof (intro impI conjI allI)
  show "snd (Validate_mem p st) = st" by (rule snd_Validate_mem)
next
  assume "wf_store st"
  then show "unchanged st (snd (preparePayload_mem quote p st))"
    by (rule preparePayload_mem_unchanged)
next
  fix ov
  assume "options st p = Some ov \<and> wf_Options st ov"
  then show "fst (Validate_mem p st) = Validate (Options_value st ov)"
    by (simp add: fst_Validate_mem)
next
  fix ov
  assume "options st p = Some ov \<and> wf_Options st ov"
  then show "fst (preparePayload_mem quote p st) = preparePayload quote (Options_value st ov)"
    by (simp add: preparePayload_mem_result)
next
  fix ov
  assume wf: "wf_store st" and "options st p = Some ov \<and> wf_Options st ov"
  then show "options (snd (preparePayload_mem quote p st)) p = Some ov"
    using preparePayload_mem_unchanged [OF wf, of quote p] by (simp add: unchanged_def)
next
  fix ov
  assume wf: "wf_store st" and a: "options st p = Some ov \<and> wf_Options st ov"
  let ?st' = "snd (preparePayload_mem quote p st)"
  have u: "unchanged st ?st'" by (rule preparePayload_mem_unchanged [OF wf])
  have "slice_elems ?st' (DeviceKeys ov) = slice_elems st (DeviceKeys ov)"
  proof (cases "sl_len (DeviceKeys ov) = 0")
    case True
    then show ?thesis by (simp add: slice_elems_def split: option.splits)
  next
    case False
    with a obtain b xs where "sl_array (DeviceKeys ov) = Some b" and "arrays st b = Some xs"
      by (auto simp: wf_Options_def)
    moreover from this u have "arrays ?st' b = Some xs"
      unfolding unchanged_def by (metis domI)
    ultimately show ?thesis by (simp add: slice_elems_def)
  qed
  moreover have "encopts ?st' = encopts st" using u by (simp add: unchanged_def)
  ultimately show "Options_value ?st' ov = Options_value st ov"
    by (simp add: Options_value_def split: option.splits)
qed

theorem caller_memory_unchanged_witness:
  "snd (Validate_mem 0 scenario_C_store) = scenario_C_store
   \<and> options (snd (preparePayload_mem quote_plain 0 scenario_C_store)) = options scenario_C_store
   \<and> encopts (snd (preparePayload_mem quote_plain 0 scenario_C_store)) = encopts scenario_C_store
   \<and> arrays (snd (preparePayload_mem quote_plain 0 scenario_C_store)) 0 = Some [''a'', ''b'', ''c'']
   \<and> Options_value (snd (preparePayload_mem quote_plain 0 scenario_C_store)) scenario_C_mem
       = scenario_C
   \<and> fst (preparePayload_mem quote_plain 0 scenario_C_store) = preparePayload quote_plain scenario_C
   \<and> fst (Validate_mem 0 scenario_C_store) = None"
proof -
  let ?st = scenario_C_store
  have wf: "wf_store ?st" by (simp add: wf_store_def scenario_C_store_def)
  have ov: "options ?st 0 = Some scenario_C_mem \<and> wf_Options ?st scenario_C_mem"
    by (simp add: scenario_C_store_def wf_Options_def scenario_C_mem_def)
  have val: "Options_value ?st scenario_C_mem = scenario_C"
    by (simp add: Options_value_def scenario_C_store_def scenario_C_mem_def scenario_C_def
        zero_Options_def slice_elems_def)
  have v: "Validate scenario_C = None"
    by (simp add: Validate_def scenario_C_def zero_Options_def cbc_example_def ToUpper_def
        upper_char_def EncModeCBC_def Let_def)
  note t = caller_memory_unchanged [of ?st 0 quote_plain, rule_format, OF wf]
  note s = t [THEN conjunct2, THEN conjunct2, rule_format, OF ov]
  have u: "unchanged ?st (snd (preparePayload_mem quote_plain 0 ?st))"
    by (rule t [THEN conjunct2, THEN conjunct1])
  have a0: "arrays (snd (preparePayload_mem quote_plain 0 ?st)) 0 = arrays ?st 0"
    using u by (simp add: unchanged_def scenario_C_store_def)
  show ?thesis
    using t [THEN conjunct1] u s a0
    by (simp add: unchanged_def val v) (simp add: scenario_C_store_def)
qed

end
